theory Spec2Isabelle
  imports Main
begin

section \<open>Values of the program\<close>

text \<open>
  The class \<^verbatim>\<open>Paginatable<T extends { id: number }>\<close> keeps its state in JavaScript
  objects that are shared by reference: a \<^verbatim>\<open>Map\<close> of items, a \<^verbatim>\<open>Map\<close> of loading flags,
  a \<^verbatim>\<open>Set\<close> of pages and a cached array. The model therefore has an explicit store:
  every object lives at an address, and a field of a \<^verbatim>\<open>Paginatable\<close> holds the address
  of the collection, not the collection.

  Numbers (page numbers, item ids, totals) are modelled as \<open>int\<close>. An item is its
  \<^verbatim>\<open>id\<close> and the rest of its fields, which the class never looks at.
\<close>

type_synonym addr = nat
type_synonym page = int
type_synonym fetch_ref = nat
type_synonym dispatch_ref = nat

datatype 'a item = Item (item_id: int) (payload: 'a)

subsection \<open>\<^verbatim>\<open>Map\<close> and \<^verbatim>\<open>Set\<close>\<close>

text \<open>
  A JavaScript \<^verbatim>\<open>Map\<close> iterates in insertion order. It is modelled as the list of its
  entries in that order. \<^verbatim>\<open>set\<close> on a key that is present replaces the value where the
  entry stands; on a new key it appends the entry. \<^verbatim>\<open>delete\<close> removes the entry and
  reports whether there was one (\<open>jsmap_has\<close> before the deletion).
\<close>

fun jsmap_set :: "'k \<Rightarrow> 'v \<Rightarrow> ('k \<times> 'v) list \<Rightarrow> ('k \<times> 'v) list" where
  "jsmap_set k v [] = [(k, v)]"
| "jsmap_set k v (e # m) = (if fst e = k then (k, v) # m else e # jsmap_set k v m)"

fun jsmap_get :: "'k \<Rightarrow> ('k \<times> 'v) list \<Rightarrow> 'v option" where
  "jsmap_get k [] = None"
| "jsmap_get k (e # m) = (if fst e = k then Some (snd e) else jsmap_get k m)"

fun jsmap_has :: "'k \<Rightarrow> ('k \<times> 'v) list \<Rightarrow> bool" where
  "jsmap_has k [] = False"
| "jsmap_has k (e # m) = (if fst e = k then True else jsmap_has k m)"

fun jsmap_delete :: "'k \<Rightarrow> ('k \<times> 'v) list \<Rightarrow> ('k \<times> 'v) list" where
  "jsmap_delete k [] = []"
| "jsmap_delete k (e # m) = (if fst e = k then jsmap_delete k m else e # jsmap_delete k m)"

definition jsmap_values :: "('k \<times> 'v) list \<Rightarrow> 'v list" where
  "jsmap_values m = map snd m"

text \<open>\<^verbatim>\<open>new Map(iterable)\<close> sets the entries of the iterable one after the other.\<close>

fun jsmap_from :: "('k \<times> 'v) list \<Rightarrow> ('k \<times> 'v) list \<Rightarrow> ('k \<times> 'v) list" where
  "jsmap_from [] acc = acc"
| "jsmap_from (e # es) acc = jsmap_from es (jsmap_set (fst e) (snd e) acc)"

text \<open>A \<^verbatim>\<open>Set\<close> is the list of its members in insertion order.\<close>

fun jsset_has :: "'k \<Rightarrow> 'k list \<Rightarrow> bool" where
  "jsset_has k [] = False"
| "jsset_has k (x # xs) = (if x = k then True else jsset_has k xs)"

definition jsset_add :: "'k \<Rightarrow> 'k list \<Rightarrow> 'k list" where
  "jsset_add k xs = (if jsset_has k xs then xs else xs @ [k])"

fun jsset_from :: "'k list \<Rightarrow> 'k list \<Rightarrow> 'k list" where
  "jsset_from [] acc = acc"
| "jsset_from (x # xs) acc = jsset_from xs (jsset_add x acc)"

section \<open>The store of objects\<close>

text \<open>
  The fields of a \<^verbatim>\<open>Paginatable\<close>, in the order of the class. \<open>total_items\<close> is the
  field \<^verbatim>\<open>total\<close>, \<open>items_map\<close> is \<^verbatim>\<open>_items\<close> and \<open>itemsCache\<close> is \<^verbatim>\<open>_itemsCache\<close>
  (\<open>None\<close> is \<^verbatim>\<open>null\<close>). \<open>onPaginate\<close> and \<open>dispatch\<close> hold function references; a
  \<open>dispatch\<close> of \<open>None\<close> is the field before \<^verbatim>\<open>setDispatch\<close>, which reads \<^verbatim>\<open>undefined\<close>.
\<close>

record paginatable =
  total_items :: int
  loading :: addr
  items_map :: addr
  itemsCache :: "addr option"
  seen :: addr
  onPaginate :: fetch_ref
  dispatch :: "dispatch_ref option"

text \<open>The message constants of the module and a call of \<^verbatim>\<open>console.warn\<close>.\<close>

definition NOT_FOUND :: string where
  "NOT_FOUND = ''Item was not found in the dataset''"

definition FAILED_TO_UPDATE :: string where
  "FAILED_TO_UPDATE = ''Failed to update item with id''"

definition FAILED_TO_GET :: string where
  "FAILED_TO_GET = ''Failed to get item with id''"

definition FAILED_TO_REMOVE :: string where
  "FAILED_TO_REMOVE = ''Failed to remove item with id''"

datatype warning = Warn string string int

text \<open>
  The state of the program: one heap per kind of object over a single address space
  with the allocation counter \<open>nxt\<close>, and three logs of what the class does to the
  outside: the calls of a dispatch callback with the address of the snapshot passed,
  the calls of the fetch function with the page passed, and the console.
\<close>

record 'a state =
  objects :: "addr \<Rightarrow> paginatable"
  item_maps :: "addr \<Rightarrow> (int \<times> 'a item) list"
  bool_maps :: "addr \<Rightarrow> (page \<times> bool) list"
  page_sets :: "addr \<Rightarrow> page list"
  arrays :: "addr \<Rightarrow> 'a item list"
  nxt :: addr
  dispatched :: "(dispatch_ref \<times> addr) list"
  fetched :: "(fetch_ref \<times> page) list"
  console :: "warning list"

definition empty_state :: "'a state" where
  "empty_state =
     \<lparr>objects = (\<lambda>_. \<lparr>total_items = 0, loading = 0, items_map = 0, itemsCache = None,
                        seen = 0, onPaginate = 0, dispatch = None\<rparr>),
      item_maps = (\<lambda>_. []), bool_maps = (\<lambda>_. []), page_sets = (\<lambda>_. []),
      arrays = (\<lambda>_. []), nxt = 0, dispatched = [], fetched = [], console = []\<rparr>"

text \<open>What a method leaves behind: it returns, or it throws, and either way the
  mutations made so far stay.\<close>

datatype error = TypeError | FetchFailure string

datatype 'a outcome = Returned (final: "'a state") | Threw error (final: "'a state")

text \<open>What the promise of the fetch function settles to.\<close>

datatype 'a settled = Resolved "'a item list option" int | Rejected string

text \<open>The collections a \<^verbatim>\<open>Paginatable\<close> at address \<open>this\<close> points to.\<close>

definition the_items :: "'a state \<Rightarrow> addr \<Rightarrow> (int \<times> 'a item) list" where
  "the_items s this = item_maps s (items_map (objects s this))"

definition the_loading :: "'a state \<Rightarrow> addr \<Rightarrow> (page \<times> bool) list" where
  "the_loading s this = bool_maps s (loading (objects s this))"

definition the_seen :: "'a state \<Rightarrow> addr \<Rightarrow> page list" where
  "the_seen s this = page_sets s (seen (objects s this))"

section \<open>The class\<close>

text \<open>
  The constructor. The object is allocated first, then the two maps and the set in
  the order of the assignments; \<^verbatim>\<open>_itemsCache\<close> starts as \<^verbatim>\<open>null\<close> and \<^verbatim>\<open>dispatch\<close> is
  not assigned.
\<close>

definition new_Paginatable :: "fetch_ref \<Rightarrow> 'a state \<Rightarrow> addr \<times> 'a state" where
  "new_Paginatable f s =
     (let this = nxt s; m = Suc this; l = Suc m; sn = Suc l in
      (this,
       s\<lparr>objects := (objects s)(this :=
            \<lparr>total_items = 0, loading = l, items_map = m, itemsCache = None,
             seen = sn, onPaginate = f, dispatch = None\<rparr>),
         item_maps := (item_maps s)(m := []),
         bool_maps := (bool_maps s)(l := []),
         page_sets := (page_sets s)(sn := jsset_from [] []),
         nxt := Suc sn\<rparr>))"

definition setDispatch :: "'a state \<Rightarrow> addr \<Rightarrow> dispatch_ref \<Rightarrow> addr \<times> 'a state" where
  "setDispatch s this d =
     (this, s\<lparr>objects := (objects s)(this := (objects s this)\<lparr>dispatch := Some d\<rparr>)\<rparr>)"

text \<open>
  The getter \<^verbatim>\<open>items\<close>. An array is an object and so always truthy: the test
  \<^verbatim>\<open>if (this._itemsCache)\<close> fails for \<^verbatim>\<open>null\<close> only. Otherwise a new array is allocated
  from the values of the map and stored in the cache. The result is the address of
  the array.
\<close>

definition items :: "'a state \<Rightarrow> addr \<Rightarrow> addr \<times> 'a state" where
  "items s this =
     (case itemsCache (objects s this) of
        Some a \<Rightarrow> (a, s)
      | None \<Rightarrow>
          (let a = nxt s in
           (a, s\<lparr>arrays := (arrays s)(a := jsmap_values (the_items s this)),
                  nxt := Suc a,
                  objects := (objects s)(this := (objects s this)\<lparr>itemsCache := Some a\<rparr>)\<rparr>)))"

definition has :: "'a state \<Rightarrow> addr \<Rightarrow> int \<Rightarrow> bool" where
  "has s this itemId = jsmap_has itemId (the_items s this)"

definition get :: "'a state \<Rightarrow> addr \<Rightarrow> int \<Rightarrow> 'a item option \<times> 'a state" where
  "get s this itemId =
     (case jsmap_get itemId (the_items s this) of
        None \<Rightarrow> (None, s\<lparr>console := console s @ [Warn NOT_FOUND FAILED_TO_GET itemId]\<rparr>)
      | Some item \<Rightarrow> (Some item, s))"

text \<open>
  \<^verbatim>\<open>clone\<close>: a new object from the constructor (whose own map, loading map and set
  become garbage), then the field assignments in the order of the source. \<^verbatim>\<open>_items\<close>,
  \<^verbatim>\<open>dispatch\<close> and \<^verbatim>\<open>_itemsCache\<close> are copied as references; \<^verbatim>\<open>seen\<close> and \<^verbatim>\<open>loading\<close> are
  new collections built from the old ones.
\<close>

definition clone :: "'a state \<Rightarrow> addr \<Rightarrow> addr \<times> 'a state" where
  "clone s this =
     (let (cloned, s1) = new_Paginatable (onPaginate (objects s this)) s;
          s2 = s1\<lparr>objects := (objects s1)(cloned :=
                 (objects s1 cloned)\<lparr>items_map := items_map (objects s1 this)\<rparr>)\<rparr>;
          s3 = s2\<lparr>objects := (objects s2)(cloned :=
                 (objects s2 cloned)\<lparr>total_items := total_items (objects s2 this)\<rparr>)\<rparr>;
          sn = nxt s3;
          s4 = s3\<lparr>page_sets := (page_sets s3)(sn := jsset_from (the_seen s3 this) []),
                  nxt := Suc sn\<rparr>;
          s5 = s4\<lparr>objects := (objects s4)(cloned := (objects s4 cloned)\<lparr>seen := sn\<rparr>)\<rparr>;
          s6 = s5\<lparr>objects := (objects s5)(cloned :=
                 (objects s5 cloned)\<lparr>dispatch := dispatch (objects s5 this)\<rparr>)\<rparr>;
          l = nxt s6;
          s7 = s6\<lparr>bool_maps := (bool_maps s6)(l := jsmap_from (the_loading s6 this) []),
                  nxt := Suc l\<rparr>;
          s8 = s7\<lparr>objects := (objects s7)(cloned := (objects s7 cloned)\<lparr>loading := l\<rparr>)\<rparr>;
          s9 = s8\<lparr>objects := (objects s8)(cloned :=
                 (objects s8 cloned)\<lparr>itemsCache := itemsCache (objects s8 this)\<rparr>)\<rparr>
      in (cloned, s9))"

text \<open>
  The expression \<^verbatim>\<open>this.dispatch(this.clone())\<close> that ends every notifying method.
  JavaScript reads the callee \<^verbatim>\<open>this.dispatch\<close>, evaluates the argument (the clone is
  made), and only then finds that \<^verbatim>\<open>undefined\<close> is not a function and throws a
  \<^verbatim>\<open>TypeError\<close>. A registered callback is an observer outside the class: its call is
  recorded in \<open>dispatched\<close> with the address of the snapshot it receives.
\<close>

definition dispatch_clone :: "'a state \<Rightarrow> addr \<Rightarrow> 'a outcome" where
  "dispatch_clone s this =
     (let callee = dispatch (objects s this);
          (cloned, s1) = clone s this
      in case callee of
           None \<Rightarrow> Threw TypeError s1
         | Some d \<Rightarrow> Returned (s1\<lparr>dispatched := dispatched s1 @ [(d, cloned)]\<rparr>))"

text \<open>
  \<^verbatim>\<open>paginate\<close> is an async method with one \<^verbatim>\<open>await\<close>. \<open>paginate_begin\<close> is the part
  that runs at the call, up to the call of \<^verbatim>\<open>this.onPaginate(page)\<close>, which is recorded
  in \<open>fetched\<close>; \<open>paginate_resume\<close> is the part that runs when the promise of the fetch
  function settles. A rejection is thrown at the \<^verbatim>\<open>await\<close>, so nothing after it runs
  and the promise of \<^verbatim>\<open>paginate\<close> rejects with the same reason. \<open>paginate\<close> is a call
  that is awaited with nothing in between; the fourth argument is what the fetch
  function settles to if it is called.
\<close>

datatype 'a started = Skipped "'a state" | Awaiting "'a state"

fun merge_items :: "'a item list \<Rightarrow> (int \<times> 'a item) list \<Rightarrow> (int \<times> 'a item) list" where
  "merge_items [] m = m"
| "merge_items (item # rest) m = merge_items rest (jsmap_set (item_id item) item m)"

definition paginate_begin :: "'a state \<Rightarrow> addr \<Rightarrow> page \<Rightarrow> 'a started" where
  "paginate_begin s this page =
     (if jsset_has page (the_seen s this) then Skipped s
      else
        let s1 = s\<lparr>page_sets := (page_sets s)(seen (objects s this) :=
                     jsset_add page (the_seen s this))\<rparr>;
            s2 = s1\<lparr>bool_maps := (bool_maps s1)(loading (objects s1 this) :=
                     jsmap_set page True (the_loading s1 this))\<rparr>;
            s3 = s2\<lparr>fetched := fetched s2 @ [(onPaginate (objects s2 this), page)]\<rparr>
        in Awaiting s3)"

definition paginate_resume :: "'a state \<Rightarrow> addr \<Rightarrow> page \<Rightarrow> 'a settled \<Rightarrow> 'a outcome" where
  "paginate_resume s this page r =
     (case r of
        Rejected reason \<Rightarrow> Threw (FetchFailure reason) s
      | Resolved data total' \<Rightarrow>
          let s1 = s\<lparr>bool_maps := (bool_maps s)(loading (objects s this) :=
                       jsmap_set page False (the_loading s this))\<rparr>;
              s2 = s1\<lparr>objects := (objects s1)(this :=
                       (objects s1 this)\<lparr>total_items := total'\<rparr>)\<rparr>;
              s3 = s2\<lparr>item_maps := (item_maps s2)(items_map (objects s2 this) :=
                       merge_items (case data of None \<Rightarrow> [] | Some xs \<Rightarrow> xs) (the_items s2 this))\<rparr>
          in dispatch_clone s3 this)"

definition paginate :: "'a state \<Rightarrow> addr \<Rightarrow> page \<Rightarrow> 'a settled \<Rightarrow> 'a outcome" where
  "paginate s this page r =
     (case paginate_begin s this page of
        Skipped s' \<Rightarrow> Returned s'
      | Awaiting s' \<Rightarrow> paginate_resume s' this page r)"

text \<open>\<^verbatim>\<open>reset\<close> clears the collections in place and returns \<^verbatim>\<open>this\<close>.\<close>

definition reset :: "'a state \<Rightarrow> addr \<Rightarrow> addr \<times> 'a state" where
  "reset s this =
     (let s1 = s\<lparr>item_maps := (item_maps s)(items_map (objects s this) := [])\<rparr>;
          s2 = s1\<lparr>objects := (objects s1)(this := (objects s1 this)\<lparr>itemsCache := None\<rparr>)\<rparr>;
          s3 = s2\<lparr>objects := (objects s2)(this := (objects s2 this)\<lparr>total_items := 0\<rparr>)\<rparr>;
          s4 = s3\<lparr>page_sets := (page_sets s3)(seen (objects s3 this) := [])\<rparr>;
          s5 = s4\<lparr>bool_maps := (bool_maps s4)(loading (objects s4 this) := [])\<rparr>
      in (this, s5))"

definition add :: "'a state \<Rightarrow> addr \<Rightarrow> 'a item \<Rightarrow> 'a outcome" where
  "add s this item =
     (if has s this (item_id item) then Returned s
      else
        let s1 = s\<lparr>objects := (objects s)(this := (objects s this)\<lparr>itemsCache := None\<rparr>)\<rparr>;
            s2 = s1\<lparr>item_maps := (item_maps s1)(items_map (objects s1 this) :=
                     jsmap_set (item_id item) item (the_items s1 this))\<rparr>
        in dispatch_clone s2 this)"

definition remove :: "'a state \<Rightarrow> addr \<Rightarrow> int \<Rightarrow> 'a outcome" where
  "remove s this itemId =
     (let deleted = jsmap_has itemId (the_items s this);
          s1 = s\<lparr>item_maps := (item_maps s)(items_map (objects s this) :=
                   jsmap_delete itemId (the_items s this))\<rparr>
      in if \<not> deleted
         then Returned (s1\<lparr>console := console s1 @ [Warn NOT_FOUND FAILED_TO_REMOVE itemId]\<rparr>)
         else
           let s2 = s1\<lparr>objects := (objects s1)(this :=
                        (objects s1 this)\<lparr>itemsCache := None\<rparr>)\<rparr>
           in dispatch_clone s2 this)"

definition update :: "'a state \<Rightarrow> addr \<Rightarrow> 'a item \<Rightarrow> 'a outcome" where
  "update s this item =
     (if \<not> has s this (item_id item)
      then Returned (s\<lparr>console := console s @ [Warn NOT_FOUND FAILED_TO_UPDATE (item_id item)]\<rparr>)
      else
        let s1 = s\<lparr>item_maps := (item_maps s)(items_map (objects s this) :=
                     jsmap_set (item_id item) item (the_items s this))\<rparr>;
            s2 = s1\<lparr>objects := (objects s1)(this := (objects s1 this)\<lparr>itemsCache := None\<rparr>)\<rparr>
        in dispatch_clone s2 this)"

section \<open>Properties the claims are stated with\<close>

text \<open>
  A \<^verbatim>\<open>Paginatable\<close> at \<open>this\<close> is allocated when the object and everything its fields
  point to lie below the allocation counter, so that no later allocation returns one
  of these addresses. Every object made by the constructor or by \<open>clone\<close> is.
\<close>

fun below :: "addr \<Rightarrow> addr option \<Rightarrow> bool" where
  "below n None = True"
| "below n (Some a) = (a < n)"

definition allocated :: "'a state \<Rightarrow> addr \<Rightarrow> bool" where
  "allocated s this =
     (this < nxt s \<and> items_map (objects s this) < nxt s \<and>
      loading (objects s this) < nxt s \<and> seen (objects s this) < nxt s \<and>
      below (nxt s) (itemsCache (objects s this)))"

text \<open>
  The states the program can be in: from the empty store, any sequence of
  constructor calls, method calls and reads, on any address. The two halves of
  \<open>paginate\<close> are separate steps, so that calls for other pages and other methods may
  run between the call of the fetch function and its completion.
\<close>

inductive reachable :: "'a state \<Rightarrow> bool" where
  r_empty: "reachable empty_state"
| r_new: "reachable s \<Longrightarrow> reachable (snd (new_Paginatable f s))"
| r_setDispatch: "reachable s \<Longrightarrow> reachable (snd (setDispatch s this d))"
| r_items: "reachable s \<Longrightarrow> reachable (snd (items s this))"
| r_get: "reachable s \<Longrightarrow> reachable (snd (get s this k))"
| r_begin: "reachable s \<Longrightarrow> paginate_begin s this p = Awaiting s' \<Longrightarrow> reachable s'"
| r_resume: "reachable s \<Longrightarrow> reachable (final (paginate_resume s this p r))"
| r_reset: "reachable s \<Longrightarrow> reachable (snd (reset s this))"
| r_add: "reachable s \<Longrightarrow> reachable (final (add s this x))"
| r_remove: "reachable s \<Longrightarrow> reachable (final (remove s this k))"
| r_update: "reachable s \<Longrightarrow> reachable (final (update s this x))"

text \<open>
  Two stores to evaluate on: \<open>fresh_store\<close> is \<^verbatim>\<open>new Paginatable(f)\<close> in the empty
  store, with the object at address 0, and \<open>registered_store\<close> is the same after
  \<^verbatim>\<open>setDispatch(d)\<close>. The fetch function is reference 7 and the callback reference 5.
\<close>

definition fresh_store :: "string state" where
  "fresh_store = snd (new_Paginatable 7 empty_state)"

definition registered_store :: "string state" where
  "registered_store = snd (setDispatch fresh_store 0 5)"

text \<open>
  The state a notifying method has reached when it evaluates
  \<^verbatim>\<open>this.dispatch(this.clone())\<close>, and the state \<open>paginate\<close> has reached at its
  \<^verbatim>\<open>await\<close>, written out as one update of the store each. The lemmas \<open>add_unfold\<close>,
  \<open>update_unfold\<close>, \<open>remove_unfold\<close>, \<open>paginate_begin_unfold\<close> and
  \<open>paginate_resume_unfold\<close> show that the methods pass through exactly these states.
\<close>

definition add_mutated :: "'a state \<Rightarrow> addr \<Rightarrow> 'a item \<Rightarrow> 'a state" where
  "add_mutated s this x =
     s\<lparr>objects := (objects s)(this := (objects s this)\<lparr>itemsCache := None\<rparr>),
       item_maps := (item_maps s)(items_map (objects s this) :=
          jsmap_set (item_id x) x (the_items s this))\<rparr>"

definition remove_mutated :: "'a state \<Rightarrow> addr \<Rightarrow> int \<Rightarrow> 'a state" where
  "remove_mutated s this k =
     s\<lparr>item_maps := (item_maps s)(items_map (objects s this) :=
          jsmap_delete k (the_items s this)),
       objects := (objects s)(this := (objects s this)\<lparr>itemsCache := None\<rparr>)\<rparr>"

definition update_mutated :: "'a state \<Rightarrow> addr \<Rightarrow> 'a item \<Rightarrow> 'a state" where
  "update_mutated s this x =
     s\<lparr>item_maps := (item_maps s)(items_map (objects s this) :=
          jsmap_set (item_id x) x (the_items s this)),
       objects := (objects s)(this := (objects s this)\<lparr>itemsCache := None\<rparr>)\<rparr>"

definition begin_mutated :: "'a state \<Rightarrow> addr \<Rightarrow> page \<Rightarrow> 'a state" where
  "begin_mutated s this p =
     s\<lparr>page_sets := (page_sets s)(seen (objects s this) := jsset_add p (the_seen s this)),
       bool_maps := (bool_maps s)(loading (objects s this) := jsmap_set p True (the_loading s this)),
       fetched := fetched s @ [(onPaginate (objects s this), p)]\<rparr>"

definition resume_mutated :: "'a state \<Rightarrow> addr \<Rightarrow> page \<Rightarrow> 'a item list \<Rightarrow> int \<Rightarrow> 'a state" where
  "resume_mutated s this p xs t =
     s\<lparr>bool_maps := (bool_maps s)(loading (objects s this) := jsmap_set p False (the_loading s this)),
       objects := (objects s)(this := (objects s this)\<lparr>total_items := t\<rparr>),
       item_maps := (item_maps s)(items_map (objects s this) := merge_items xs (the_items s this))\<rparr>"

text \<open>
  The cached array is in sync when there is none or when it holds the values of the
  item map in their order.
\<close>

definition cache_in_sync :: "'a state \<Rightarrow> addr \<Rightarrow> bool" where
  "cache_in_sync s this =
     (case itemsCache (objects s this) of
        None \<Rightarrow> True
      | Some a \<Rightarrow> arrays s a = jsmap_values (the_items s this))"

text \<open>Every \<^verbatim>\<open>Map\<close> of items in the store holds each id once.\<close>

definition unique_ids :: "'a state \<Rightarrow> bool" where
  "unique_ids s = (\<forall>a. distinct (map fst (item_maps s a)))"

section \<open>\<^verbatim>\<open>Map\<close> and \<^verbatim>\<open>Set\<close> operations\<close>

lemma jsmap_has_iff: "jsmap_has k m \<longleftrightarrow> k \<in> set (map fst m)"
  by (induction m) auto

lemma jsset_has_iff: "jsset_has k xs \<longleftrightarrow> k \<in> set xs"
  by (induction xs) auto

lemma jsmap_keys_set:
  "map fst (jsmap_set k v m) = (if jsmap_has k m then map fst m else map fst m @ [k])"
  by (induction m) auto

lemma jsmap_set_distinct: "distinct (map fst m) \<Longrightarrow> distinct (map fst (jsmap_set k v m))"
  by (simp add: jsmap_keys_set jsmap_has_iff)

lemma jsmap_get_set: "jsmap_get k' (jsmap_set k v m) = (if k' = k then Some v else jsmap_get k' m)"
  by (induction m) auto

lemma jsmap_set_length: "jsmap_has k m \<Longrightarrow> length (jsmap_set k v m) = length m"
  by (induction m) auto

lemma jsmap_delete_absent: "\<not> jsmap_has k m \<Longrightarrow> jsmap_delete k m = m"
  by (induction m) auto

lemma jsmap_delete_distinct: "distinct (map fst m) \<Longrightarrow> distinct (map fst (jsmap_delete k m))"
proof (induction m)
  case Nil
  show ?case by simp
next
  case (Cons e m)
  have "set (map fst (jsmap_delete k m)) \<subseteq> set (map fst m)"
    by (induction m) auto
  with Cons show ?case by auto
qed

lemma jsmap_set_at:
  "jsmap_has k m \<Longrightarrow>
   \<exists>i<length m. fst (m ! i) = k \<and> (\<forall>j<i. fst (m ! j) \<noteq> k) \<and> jsmap_set k v m = m[i := (k, v)]"
proof (induction m)
  case Nil
  then show ?case by simp
next
  case (Cons e m)
  show ?case
  proof (cases "fst e = k")
    case True
    then have "0 < length (e # m) \<and> fst ((e # m) ! 0) = k \<and> (\<forall>j<0. fst ((e # m) ! j) \<noteq> k)
        \<and> jsmap_set k v (e # m) = (e # m)[0 := (k, v)]"
      by simp
    then show ?thesis by blast
  next
    case False
    with Cons.prems have "jsmap_has k m" by simp
    from Cons.IH [OF this] obtain i where i: "i < length m" "fst (m ! i) = k"
      "\<forall>j<i. fst (m ! j) \<noteq> k" "jsmap_set k v m = m[i := (k, v)]"
      by blast
    have "\<forall>j<Suc i. fst ((e # m) ! j) \<noteq> k"
    proof (intro allI impI)
      fix j assume "j < Suc i"
      then show "fst ((e # m) ! j) \<noteq> k"
        using False i(3) by (cases j) auto
    qed
    with i False have "Suc i < length (e # m) \<and> fst ((e # m) ! Suc i) = k
        \<and> (\<forall>j<Suc i. fst ((e # m) ! j) \<noteq> k)
        \<and> jsmap_set k v (e # m) = (e # m)[Suc i := (k, v)]"
      by simp
    then show ?thesis by blast
  qed
qed

lemma merge_items_distinct:
  "distinct (map fst m) \<Longrightarrow> distinct (map fst (merge_items xs m))"
  by (induction xs arbitrary: m) (auto simp: jsmap_set_distinct)

lemma find_app:
  "find P (xs @ ys) = (case find P xs of None \<Rightarrow> find P ys | Some x \<Rightarrow> Some x)"
  by (induction xs) auto

lemma merge_items_get:
  "jsmap_get k (merge_items xs m) =
     (case find (\<lambda>y. item_id y = k) (rev xs) of Some y \<Rightarrow> Some y | None \<Rightarrow> jsmap_get k m)"
proof (induction xs arbitrary: m)
  case Nil
  show ?case by simp
next
  case (Cons x xs)
  show ?case
    by (simp add: Cons.IH jsmap_get_set find_app split: option.splits)
qed

lemma jsset_add_distinct: "distinct xs \<Longrightarrow> distinct (jsset_add k xs)"
  by (simp add: jsset_add_def jsset_has_iff)

lemma jsset_from_distinct: "distinct acc \<Longrightarrow> distinct (jsset_from xs acc)"
  by (induction xs arbitrary: acc) (auto simp: jsset_add_distinct)

lemma jsset_from_copy: "distinct (acc @ xs) \<Longrightarrow> jsset_from xs acc = acc @ xs"
  by (induction xs arbitrary: acc) (auto simp: jsset_add_def jsset_has_iff)

lemma jsmap_from_distinct:
  "distinct (map fst acc) \<Longrightarrow> distinct (map fst (jsmap_from es acc))"
  by (induction es arbitrary: acc) (auto simp: jsmap_set_distinct)

lemma jsmap_set_new: "\<not> jsmap_has k m \<Longrightarrow> jsmap_set k v m = m @ [(k, v)]"
  by (induction m) auto

lemma jsmap_from_copy: "distinct (map fst (acc @ es)) \<Longrightarrow> jsmap_from es acc = acc @ es"
proof (induction es arbitrary: acc)
  case Nil
  show ?case by simp
next
  case (Cons e es)
  from Cons.prems have "\<not> jsmap_has (fst e) acc"
    by (auto simp: jsmap_has_iff)
  then have "jsmap_set (fst e) (snd e) acc = acc @ [e]"
    by (simp add: jsmap_set_new)
  moreover from Cons.prems have "distinct (map fst ((acc @ [e]) @ es))" by simp
  ultimately show ?case using Cons.IH [of "acc @ [e]"] by simp
qed

section \<open>Cloning and dispatching\<close>

lemma clone_explicit:
  assumes "allocated s this"
  shows "clone s this =
    (nxt s,
     s\<lparr>objects := (objects s)(nxt s :=
          \<lparr>total_items = total_items (objects s this), loading = nxt s + 5,
           items_map = items_map (objects s this), itemsCache = itemsCache (objects s this),
           seen = nxt s + 4, onPaginate = onPaginate (objects s this),
           dispatch = dispatch (objects s this)\<rparr>),
       item_maps := (item_maps s)(nxt s + 1 := []),
       bool_maps := (bool_maps s)(nxt s + 2 := [], nxt s + 5 := jsmap_from (the_loading s this) []),
       page_sets := (page_sets s)(nxt s + 3 := [], nxt s + 4 := jsset_from (the_seen s this) []),
       nxt := nxt s + 6\<rparr>)"
  using assms
  by (simp add: clone_def new_Paginatable_def allocated_def the_seen_def the_loading_def
      Let_def eval_nat_numeral)

lemma dispatch_clone_cases:
  "dispatch_clone s this =
     (case dispatch (objects s this) of
        None \<Rightarrow> Threw TypeError (snd (clone s this))
      | Some d \<Rightarrow> Returned ((snd (clone s this))
           \<lparr>dispatched := dispatched (snd (clone s this)) @ [(d, fst (clone s this))]\<rparr>))"
  by (simp add: dispatch_clone_def Let_def split_beta)

lemma final_dispatch_clone:
  assumes "allocated s this"
  shows "final (dispatch_clone s this) =
     s\<lparr>objects := (objects s)(nxt s :=
          \<lparr>total_items = total_items (objects s this), loading = nxt s + 5,
           items_map = items_map (objects s this), itemsCache = itemsCache (objects s this),
           seen = nxt s + 4, onPaginate = onPaginate (objects s this),
           dispatch = dispatch (objects s this)\<rparr>),
       item_maps := (item_maps s)(nxt s + 1 := []),
       bool_maps := (bool_maps s)(nxt s + 2 := [], nxt s + 5 := jsmap_from (the_loading s this) []),
       page_sets := (page_sets s)(nxt s + 3 := [], nxt s + 4 := jsset_from (the_seen s this) []),
       nxt := nxt s + 6,
       dispatched := dispatched s @
          (case dispatch (objects s this) of None \<Rightarrow> [] | Some d \<Rightarrow> [(d, nxt s)])\<rparr>"
  by (simp add: dispatch_clone_cases clone_explicit [OF assms] split: option.splits)

lemma dispatch_clone_frame:
  assumes "allocated s this" and "a < nxt s"
  shows "objects (final (dispatch_clone s this)) a = objects s a"
    and "item_maps (final (dispatch_clone s this)) a = item_maps s a"
    and "bool_maps (final (dispatch_clone s this)) a = bool_maps s a"
    and "page_sets (final (dispatch_clone s this)) a = page_sets s a"
  using assms(2) by (simp_all add: final_dispatch_clone [OF assms(1)])

lemma dispatch_clone_logs:
  assumes "allocated s this"
  shows "arrays (final (dispatch_clone s this)) = arrays s"
    and "fetched (final (dispatch_clone s this)) = fetched s"
    and "console (final (dispatch_clone s this)) = console s"
    and "nxt (final (dispatch_clone s this)) = nxt s + 6"
  by (simp_all add: final_dispatch_clone [OF assms])

lemma dispatch_clone_this:
  assumes "allocated s this"
  shows "objects (final (dispatch_clone s this)) this = objects s this"
    and "the_items (final (dispatch_clone s this)) this = the_items s this"
    and "the_seen (final (dispatch_clone s this)) this = the_seen s this"
    and "the_loading (final (dispatch_clone s this)) this = the_loading s this"
    and "allocated (final (dispatch_clone s this)) this"
  using assms
  by (simp_all add: final_dispatch_clone [OF assms] allocated_def the_items_def the_seen_def
      the_loading_def) (cases "itemsCache (objects s this)"; simp)

section \<open>The methods, unfolded\<close>

lemma add_unfold:
  "\<not> has s this (item_id x) \<Longrightarrow> add s this x = dispatch_clone (add_mutated s this x) this"
  by (simp add: add_def add_mutated_def Let_def the_items_def)

lemma update_unfold:
  "has s this (item_id x) \<Longrightarrow> update s this x = dispatch_clone (update_mutated s this x) this"
  by (simp add: update_def update_mutated_def Let_def the_items_def)

lemma remove_unfold:
  "has s this k \<Longrightarrow> remove s this k = dispatch_clone (remove_mutated s this k) this"
  by (simp add: remove_def remove_mutated_def Let_def the_items_def has_def)

lemma paginate_begin_unfold:
  "paginate_begin s this p =
     (if jsset_has p (the_seen s this) then Skipped s else Awaiting (begin_mutated s this p))"
  by (simp add: paginate_begin_def begin_mutated_def Let_def the_seen_def the_loading_def)

lemma paginate_resume_unfold:
  "paginate_resume s this p (Resolved data t) =
     dispatch_clone (resume_mutated s this p (case data of None \<Rightarrow> [] | Some xs \<Rightarrow> xs) t) this"
  "paginate_resume s this p (Rejected e) = Threw (FetchFailure e) s"
  by (simp_all add: paginate_resume_def resume_mutated_def Let_def the_items_def the_loading_def)

lemma mutated_allocated:
  assumes "allocated s this"
  shows "allocated (add_mutated s this x) this"
    and "allocated (remove_mutated s this k) this"
    and "allocated (update_mutated s this x) this"
    and "allocated (begin_mutated s this p) this"
    and "allocated (resume_mutated s this p xs t) this"
  using assms
  by (simp_all add: add_mutated_def remove_mutated_def update_mutated_def begin_mutated_def
      resume_mutated_def allocated_def)

lemma add_mutated_this:
  "the_items (add_mutated s this x) this = jsmap_set (item_id x) x (the_items s this)"
  "the_seen (add_mutated s this x) this = the_seen s this"
  "the_loading (add_mutated s this x) this = the_loading s this"
  "objects (add_mutated s this x) this = (objects s this)\<lparr>itemsCache := None\<rparr>"
  by (simp_all add: add_mutated_def the_items_def the_seen_def the_loading_def)

lemma update_mutated_this:
  "the_items (update_mutated s this x) this = jsmap_set (item_id x) x (the_items s this)"
  "the_seen (update_mutated s this x) this = the_seen s this"
  "the_loading (update_mutated s this x) this = the_loading s this"
  "objects (update_mutated s this x) this = (objects s this)\<lparr>itemsCache := None\<rparr>"
  by (simp_all add: update_mutated_def the_items_def the_seen_def the_loading_def)

lemma remove_mutated_this:
  "the_items (remove_mutated s this k) this = jsmap_delete k (the_items s this)"
  "the_seen (remove_mutated s this k) this = the_seen s this"
  "the_loading (remove_mutated s this k) this = the_loading s this"
  "objects (remove_mutated s this k) this = (objects s this)\<lparr>itemsCache := None\<rparr>"
  by (simp_all add: remove_mutated_def the_items_def the_seen_def the_loading_def)

lemma begin_mutated_this:
  "the_items (begin_mutated s this p) this = the_items s this"
  "the_seen (begin_mutated s this p) this = jsset_add p (the_seen s this)"
  "the_loading (begin_mutated s this p) this = jsmap_set p True (the_loading s this)"
  "objects (begin_mutated s this p) = objects s"
  "fetched (begin_mutated s this p) = fetched s @ [(onPaginate (objects s this), p)]"
  by (simp_all add: begin_mutated_def the_items_def the_seen_def the_loading_def)

lemma resume_mutated_this:
  "the_items (resume_mutated s this p xs t) this = merge_items xs (the_items s this)"
  "the_seen (resume_mutated s this p xs t) this = the_seen s this"
  "the_loading (resume_mutated s this p xs t) this = jsmap_set p False (the_loading s this)"
  "objects (resume_mutated s this p xs t) this = (objects s this)\<lparr>total_items := t\<rparr>"
  "fetched (resume_mutated s this p xs t) = fetched s"
  by (simp_all add: resume_mutated_def the_items_def the_seen_def the_loading_def)

lemma fresh_store_eval:
  "objects fresh_store 0 = \<lparr>total_items = 0, loading = 2, items_map = Suc 0, itemsCache = None,
      seen = 3, onPaginate = 7, dispatch = None\<rparr>"
  "nxt fresh_store = 4" "the_items fresh_store 0 = []" "the_loading fresh_store 0 = []"
  "the_seen fresh_store 0 = []" "dispatched fresh_store = []" "fetched fresh_store = []"
  "console fresh_store = []"
  by (simp_all add: fresh_store_def new_Paginatable_def empty_state_def Let_def
      the_items_def the_loading_def the_seen_def)

lemma registered_store_eval:
  "objects registered_store 0 = \<lparr>total_items = 0, loading = 2, items_map = Suc 0,
      itemsCache = None, seen = 3, onPaginate = 7, dispatch = Some 5\<rparr>"
  "nxt registered_store = 4" "the_items registered_store 0 = []"
  "the_loading registered_store 0 = []" "the_seen registered_store 0 = []"
  "dispatched registered_store = []" "fetched registered_store = []"
  "console registered_store = []"
  using fresh_store_eval
  by (simp_all add: registered_store_def setDispatch_def the_items_def the_loading_def
      the_seen_def)

lemma allocated_fresh: "allocated fresh_store 0"
  by (simp add: allocated_def fresh_store_eval)

lemma allocated_registered: "allocated registered_store 0"
  by (simp add: allocated_def registered_store_eval)

section \<open>Effects of the methods\<close>

lemma dispatch_clone_throws:
  "dispatch (objects s this) = None \<Longrightarrow> dispatch_clone s this = Threw TypeError (snd (clone s this))"
  by (simp add: dispatch_clone_cases)

lemma dispatch_clone_returns:
  "dispatch (objects s this) = Some d \<Longrightarrow>
   dispatch_clone s this = Returned ((snd (clone s this))
           \<lparr>dispatched := dispatched (snd (clone s this)) @ [(d, fst (clone s this))]\<rparr>)"
  by (simp add: dispatch_clone_cases)

lemma mutated_dispatch:
  "dispatch (objects (add_mutated s this x) this) = dispatch (objects s this)"
  "dispatch (objects (update_mutated s this x) this) = dispatch (objects s this)"
  "dispatch (objects (remove_mutated s this k) this) = dispatch (objects s this)"
  "dispatch (objects (begin_mutated s this p) this) = dispatch (objects s this)"
  "dispatch (objects (resume_mutated s this p xs t) this) = dispatch (objects s this)"
  by (simp_all add: add_mutated_this update_mutated_this remove_mutated_this begin_mutated_this
      resume_mutated_this)

lemma paginate_unseen:
  "\<not> jsset_has p (the_seen s this) \<Longrightarrow>
   paginate s this p r = paginate_resume (begin_mutated s this p) this p r"
  by (simp add: paginate_def paginate_begin_unfold)

lemma paginate_seen:
  "jsset_has p (the_seen s this) \<Longrightarrow> paginate s this p r = Returned s"
  by (simp add: paginate_def paginate_begin_unfold)

lemma add_present: "has s this (item_id x) \<Longrightarrow> add s this x = Returned s"
  by (simp add: add_def)

lemma remove_absent:
  "\<not> has s this k \<Longrightarrow>
   remove s this k = Returned (s\<lparr>console := console s @ [Warn NOT_FOUND FAILED_TO_REMOVE k]\<rparr>)"
  by (simp add: remove_def has_def Let_def jsmap_delete_absent the_items_def)

lemma update_absent:
  "\<not> has s this (item_id y) \<Longrightarrow>
   update s this y =
     Returned (s\<lparr>console := console s @ [Warn NOT_FOUND FAILED_TO_UPDATE (item_id y)]\<rparr>)"
  by (simp add: update_def)

lemma jsset_has_add: "jsset_has p (jsset_add p xs)"
  by (simp add: jsset_add_def jsset_has_iff)

lemma add_effect:
  assumes "allocated s this" and "\<not> has s this (item_id x)"
  shows "the_items (final (add s this x)) this = jsmap_set (item_id x) x (the_items s this)"
    and "objects (final (add s this x)) this = (objects s this)\<lparr>itemsCache := None\<rparr>"
    and "the_seen (final (add s this x)) this = the_seen s this"
    and "the_loading (final (add s this x)) this = the_loading s this"
    and "allocated (final (add s this x)) this"
  using assms
  by (simp_all add: add_unfold dispatch_clone_this mutated_allocated add_mutated_this)

lemma update_effect:
  assumes "allocated s this" and "has s this (item_id x)"
  shows "the_items (final (update s this x)) this = jsmap_set (item_id x) x (the_items s this)"
    and "objects (final (update s this x)) this = (objects s this)\<lparr>itemsCache := None\<rparr>"
    and "the_seen (final (update s this x)) this = the_seen s this"
    and "the_loading (final (update s this x)) this = the_loading s this"
    and "allocated (final (update s this x)) this"
  using assms
  by (simp_all add: update_unfold dispatch_clone_this mutated_allocated update_mutated_this)

lemma remove_effect:
  assumes "allocated s this" and "has s this k"
  shows "the_items (final (remove s this k)) this = jsmap_delete k (the_items s this)"
    and "objects (final (remove s this k)) this = (objects s this)\<lparr>itemsCache := None\<rparr>"
    and "the_seen (final (remove s this k)) this = the_seen s this"
    and "the_loading (final (remove s this k)) this = the_loading s this"
    and "allocated (final (remove s this k)) this"
  using assms
  by (simp_all add: remove_unfold dispatch_clone_this mutated_allocated remove_mutated_this)

lemma paginate_resolved_effect:
  assumes "allocated s this" and "\<not> jsset_has p (the_seen s this)"
  shows "the_items (final (paginate s this p (Resolved data t))) this =
           merge_items (case data of None \<Rightarrow> [] | Some xs \<Rightarrow> xs) (the_items s this)"
    and "objects (final (paginate s this p (Resolved data t))) this =
           (objects s this)\<lparr>total_items := t\<rparr>"
    and "the_seen (final (paginate s this p (Resolved data t))) this = jsset_add p (the_seen s this)"
    and "the_loading (final (paginate s this p (Resolved data t))) this =
           jsmap_set p False (jsmap_set p True (the_loading s this))"
    and "fetched (final (paginate s this p (Resolved data t))) =
           fetched s @ [(onPaginate (objects s this), p)]"
    and "arrays (final (paginate s this p (Resolved data t))) = arrays s"
    and "allocated (final (paginate s this p (Resolved data t))) this"
  using assms
  by (simp_all add: paginate_unseen paginate_resume_unfold dispatch_clone_this dispatch_clone_logs
      mutated_allocated resume_mutated_this begin_mutated_this)
    (simp add: resume_mutated_def begin_mutated_def)

lemma paginate_rejected_effect:
  assumes "\<not> jsset_has p (the_seen s this)"
  shows "paginate s this p (Rejected e) = Threw (FetchFailure e) (begin_mutated s this p)"
  using assms by (simp add: paginate_unseen paginate_resume_unfold)

lemma items_effect:
  assumes "allocated s this"
  shows "allocated (snd (items s this)) this"
    and "the_items (snd (items s this)) this = the_items s this"
    and "has (snd (items s this)) this k = has s this k"
    and "cache_in_sync s this \<Longrightarrow>
         arrays (snd (items s this)) (fst (items s this)) = jsmap_values (the_items s this)"
  using assms
  by (auto simp: items_def Let_def allocated_def the_items_def has_def cache_in_sync_def
      split: option.splits)

lemma items_uncached:
  "itemsCache (objects s this) = None \<Longrightarrow>
   arrays (snd (items s this)) (fst (items s this)) = jsmap_values (the_items s this)"
  by (simp add: items_def Let_def)

section \<open>What a method of one object leaves alone\<close>

lemma reset_frame:
  "a \<noteq> seen (objects s this) \<Longrightarrow> page_sets (snd (reset s this)) a = page_sets s a"
  "b \<noteq> loading (objects s this) \<Longrightarrow> bool_maps (snd (reset s this)) b = bool_maps s b"
  "c \<noteq> this \<Longrightarrow> objects (snd (reset s this)) c = objects s c"
  by (simp_all add: reset_def Let_def)

lemma begin_mutated_frame:
  "a \<noteq> seen (objects s this) \<Longrightarrow> page_sets (begin_mutated s this p) a = page_sets s a"
  "b \<noteq> loading (objects s this) \<Longrightarrow> bool_maps (begin_mutated s this p) b = bool_maps s b"
  "nxt (begin_mutated s this p) = nxt s"
  by (simp_all add: begin_mutated_def)

lemma resume_mutated_frame:
  "page_sets (resume_mutated s this p xs t) = page_sets s"
  "b \<noteq> loading (objects s this) \<Longrightarrow> bool_maps (resume_mutated s this p xs t) b = bool_maps s b"
  "c \<noteq> this \<Longrightarrow> objects (resume_mutated s this p xs t) c = objects s c"
  "nxt (resume_mutated s this p xs t) = nxt s"
  "seen (objects (resume_mutated s this p xs t) this) = seen (objects s this)"
  "loading (objects (resume_mutated s this p xs t) this) = loading (objects s this)"
  by (simp_all add: resume_mutated_def)

lemma paginate_final:
  "final (paginate s this q r) =
     (if jsset_has q (the_seen s this) then s
      else case r of
        Rejected e \<Rightarrow> begin_mutated s this q
      | Resolved data t \<Rightarrow>
          final (dispatch_clone (resume_mutated (begin_mutated s this q) this q
                   (case data of None \<Rightarrow> [] | Some xs \<Rightarrow> xs) t) this))"
  by (simp add: paginate_seen paginate_unseen paginate_resume_unfold split: settled.splits)

lemma paginate_frame_objects:
  assumes "allocated s this" and "c < nxt s" and "c \<noteq> this"
  shows "objects (final (paginate s this q r)) c = objects s c"
  using assms
  by (simp add: paginate_final dispatch_clone_frame mutated_allocated resume_mutated_frame
      begin_mutated_frame begin_mutated_this split: settled.splits)

lemma paginate_frame_page_sets:
  assumes "allocated s this" and "a < nxt s" and "a \<noteq> seen (objects s this)"
  shows "page_sets (final (paginate s this q r)) a = page_sets s a"
  using assms
  by (simp add: paginate_final dispatch_clone_frame mutated_allocated resume_mutated_frame
      begin_mutated_frame begin_mutated_this split: settled.splits)

lemma paginate_frame_bool_maps:
  assumes "allocated s this" and "b < nxt s" and "b \<noteq> loading (objects s this)"
  shows "bool_maps (final (paginate s this q r)) b = bool_maps s b"
  using assms
  by (simp add: paginate_final dispatch_clone_frame mutated_allocated resume_mutated_frame
      begin_mutated_frame begin_mutated_this split: settled.splits)

text \<open>The fresh store after \<^verbatim>\<open>add({id: 1})\<close>, which threw at the dispatch and kept the item.\<close>

lemma one_item_store:
  "allocated (final (add fresh_store 0 (Item 1 ''A''))) 0"
  "the_items (final (add fresh_store 0 (Item 1 ''A''))) 0 = [(1, Item 1 ''A'')]"
  "has (final (add fresh_store 0 (Item 1 ''A''))) 0 1"
  "dispatch (objects (final (add fresh_store 0 (Item 1 ''A''))) 0) = None"
proof -
  have h: "\<not> has fresh_store 0 (item_id (Item 1 ''A''))"
    by (simp add: has_def fresh_store_eval)
  show "allocated (final (add fresh_store 0 (Item 1 ''A''))) 0"
    by (rule add_effect [OF allocated_fresh h])
  show "the_items (final (add fresh_store 0 (Item 1 ''A''))) 0 = [(1, Item 1 ''A'')]"
    by (simp add: add_effect [OF allocated_fresh h] fresh_store_eval)
  then show "has (final (add fresh_store 0 (Item 1 ''A''))) 0 1"
    by (simp add: has_def)
  show "dispatch (objects (final (add fresh_store 0 (Item 1 ''A''))) 0) = None"
    by (simp add: add_effect [OF allocated_fresh h] fresh_store_eval)
qed

section \<open>Ids stay unique; the snapshot of \<^verbatim>\<open>paginate\<close>\<close>

lemma unique_ids_same: "item_maps s' = item_maps s \<Longrightarrow> unique_ids s \<Longrightarrow> unique_ids s'"
  by (simp add: unique_ids_def)

lemma unique_ids_upd:
  "unique_ids s \<Longrightarrow> distinct (map fst m) \<Longrightarrow> item_maps s' = (item_maps s)(a := m) \<Longrightarrow>
   unique_ids s'"
  by (simp add: unique_ids_def)

lemma clone_item_maps: "item_maps (snd (clone s this)) = (item_maps s)(Suc (nxt s) := [])"
  by (simp add: clone_def new_Paginatable_def Let_def)

lemma dispatch_clone_item_maps:
  "item_maps (final (dispatch_clone s this)) = (item_maps s)(Suc (nxt s) := [])"
  by (simp add: dispatch_clone_cases clone_item_maps split: option.splits)

lemma dispatch_clone_unique: "unique_ids s \<Longrightarrow> unique_ids (final (dispatch_clone s this))"
  by (rule unique_ids_upd [where m = "[]"]) (simp_all add: dispatch_clone_item_maps)

lemma mutated_unique:
  assumes "unique_ids s"
  shows "unique_ids (add_mutated s this x)"
    and "unique_ids (update_mutated s this x)"
    and "unique_ids (remove_mutated s this k)"
    and "unique_ids (begin_mutated s this p)"
    and "unique_ids (resume_mutated s this p xs t)"
  using assms
  by (simp_all add: unique_ids_def add_mutated_def update_mutated_def remove_mutated_def
      begin_mutated_def resume_mutated_def the_items_def jsmap_set_distinct jsmap_delete_distinct
      merge_items_distinct)

lemma unique_ids_console: "unique_ids (s\<lparr>console := c\<rparr>) = unique_ids s"
  by (simp add: unique_ids_def)

lemma add_unique: "unique_ids s \<Longrightarrow> unique_ids (final (add s this x))"
  by (cases "has s this (item_id x)")
    (simp_all add: add_present add_unfold dispatch_clone_unique mutated_unique)

lemma update_unique: "unique_ids s \<Longrightarrow> unique_ids (final (update s this x))"
  by (cases "has s this (item_id x)")
    (simp_all add: update_absent update_unfold dispatch_clone_unique mutated_unique unique_ids_console)

lemma remove_unique: "unique_ids s \<Longrightarrow> unique_ids (final (remove s this k))"
  by (cases "has s this k")
    (simp_all add: remove_absent remove_unfold dispatch_clone_unique mutated_unique unique_ids_console)

lemma paginate_begin_unique:
  "unique_ids s \<Longrightarrow> paginate_begin s this p = Awaiting s' \<Longrightarrow> unique_ids s'"
  by (auto simp: paginate_begin_unfold mutated_unique split: if_splits)

lemma paginate_resume_unique: "unique_ids s \<Longrightarrow> unique_ids (final (paginate_resume s this p r))"
  by (cases r) (simp_all add: paginate_resume_unfold dispatch_clone_unique mutated_unique)

lemma reachable_unique_ids: "reachable s \<Longrightarrow> unique_ids s"
proof (induction rule: reachable.induct)
  case r_empty
  show ?case by (simp add: unique_ids_def empty_state_def)
next
  case (r_new s f)
  then show ?case by (simp add: unique_ids_def new_Paginatable_def Let_def)
next
  case (r_setDispatch s this d)
  then show ?case by (simp add: unique_ids_def setDispatch_def)
next
  case (r_items s this)
  then show ?case by (simp add: unique_ids_def items_def Let_def split: option.splits)
next
  case (r_get s this k)
  then show ?case by (simp add: unique_ids_def get_def split: option.splits)
next
  case (r_begin s this p s')
  then show ?case by (simp add: paginate_begin_unique)
next
  case (r_resume s this p r)
  then show ?case by (simp add: paginate_resume_unique)
next
  case (r_reset s this)
  then show ?case by (simp add: unique_ids_def reset_def Let_def)
next
  case (r_add s this x)
  then show ?case by (simp add: add_unique)
next
  case (r_remove s this k)
  then show ?case by (simp add: remove_unique)
next
  case (r_update s this x)
  then show ?case by (simp add: update_unique)
qed

lemma reachable_one_item: "reachable (final (add fresh_store 0 (Item 1 ''A'')))"
  unfolding fresh_store_def
  by (rule reachable.r_add, rule reachable.r_new, rule reachable.r_empty)

lemma dispatch_clone_snapshot:
  assumes "allocated s this"
  shows "objects (final (dispatch_clone s this)) (nxt s) =
      \<lparr>total_items = total_items (objects s this), loading = nxt s + 5,
       items_map = items_map (objects s this), itemsCache = itemsCache (objects s this),
       seen = nxt s + 4, onPaginate = onPaginate (objects s this),
       dispatch = dispatch (objects s this)\<rparr>"
    and "dispatched (final (dispatch_clone s this)) =
      dispatched s @ (case dispatch (objects s this) of None \<Rightarrow> [] | Some d \<Rightarrow> [(d, nxt s)])"
  by (simp_all add: final_dispatch_clone [OF assms])

lemma paginate_resolved_returns:
  "dispatch (objects s this) = Some d \<Longrightarrow>
   paginate s this p (Resolved data t) = Returned (final (paginate s this p (Resolved data t)))"
  by (cases "jsset_has p (the_seen s this)")
    (simp_all add: paginate_seen paginate_unseen paginate_resume_unfold dispatch_clone_returns
      mutated_dispatch)

lemma paginate_resolved_snapshot:
  assumes "allocated s this" and "\<not> jsset_has p (the_seen s this)"
  shows "itemsCache (objects (final (paginate s this p (Resolved data t))) (nxt s)) =
           itemsCache (objects s this)"
    and "dispatched (final (paginate s this p (Resolved data t))) =
           dispatched s @ (case dispatch (objects s this) of None \<Rightarrow> [] | Some d \<Rightarrow> [(d, nxt s)])"
proof -
  let ?r = "resume_mutated (begin_mutated s this p) this p (case data of None \<Rightarrow> [] | Some xs \<Rightarrow> xs) t"
  have al: "allocated ?r this"
    by (intro mutated_allocated assms(1))
  have n: "nxt ?r = nxt s" "dispatched ?r = dispatched s"
    "itemsCache (objects ?r this) = itemsCache (objects s this)"
    "dispatch (objects ?r this) = dispatch (objects s this)"
    by (simp_all add: resume_mutated_def begin_mutated_def)
  have fin: "final (paginate s this p (Resolved data t)) = final (dispatch_clone ?r this)"
    using assms(2) by (simp add: paginate_final)
  show "itemsCache (objects (final (paginate s this p (Resolved data t))) (nxt s)) =
           itemsCache (objects s this)"
    using dispatch_clone_snapshot(1) [OF al] by (simp add: fin n)
  show "dispatched (final (paginate s this p (Resolved data t))) =
           dispatched s @ (case dispatch (objects s this) of None \<Rightarrow> [] | Some d \<Rightarrow> [(d, nxt s)])"
    using dispatch_clone_snapshot(2) [OF al] by (simp add: fin n split: option.splits)
qed

lemma read_store_eval:
  "fst (items registered_store 0) = 4"
  "objects (snd (items registered_store 0)) 0 = \<lparr>total_items = 0, loading = 2, items_map = Suc 0,
      itemsCache = Some 4, seen = 3, onPaginate = 7, dispatch = Some 5\<rparr>"
  "nxt (snd (items registered_store 0)) = 5"
  "arrays (snd (items registered_store 0)) 4 = []"
  "the_items (snd (items registered_store 0)) 0 = []"
  "the_seen (snd (items registered_store 0)) 0 = []"
  "dispatched (snd (items registered_store 0)) = []"
  "allocated (snd (items registered_store 0)) 0"
  using registered_store_eval
  by (simp_all add: items_def Let_def jsmap_values_def allocated_def the_items_def the_seen_def)

section \<open>\<^verbatim>\<open>reset\<close>, \<^verbatim>\<open>update\<close> and the store after \<^verbatim>\<open>paginate(1)\<close>\<close>

text \<open>
  \<^verbatim>\<open>reset\<close> returns the store, empties its collections and makes no call of the
  dispatch callback.
\<close>

lemma reset_effect:
  "fst (reset s this) = this \<and>
   dispatched (snd (reset s this)) = dispatched s \<and>
   the_items (snd (reset s this)) this = [] \<and>
   itemsCache (objects (snd (reset s this)) this) = None \<and>
   total_items (objects (snd (reset s this)) this) = 0 \<and>
   the_seen (snd (reset s this)) this = [] \<and>
   the_loading (snd (reset s this)) this = []"
  by (simp add: reset_def Let_def the_items_def the_seen_def the_loading_def)

text \<open>
  \<^verbatim>\<open>update(x)\<close> of a present id \<open>k\<close> after a read of \<^verbatim>\<open>.items\<close>: there is a position \<open>i\<close>,
  the first with key \<open>k\<close>, such that the next read of \<^verbatim>\<open>.items\<close> is the sequence of the
  values of the item map before the update with the element at \<open>i\<close> replaced by \<open>x\<close>.
  That sequence is what the read before the update returned when the cache was in
  sync.
\<close>

lemma update_replaces_in_place:
  assumes "allocated s this" and "has s this (item_id x)"
  shows "\<exists>i<length (the_items s this).
           fst (the_items s this ! i) = item_id x \<and>
           (\<forall>j<i. fst (the_items s this ! j) \<noteq> item_id x) \<and>
           arrays (snd (items (final (update (snd (items s this)) this x)) this))
                  (fst (items (final (update (snd (items s this)) this x)) this))
             = (jsmap_values (the_items s this))[i := x] \<and>
           (cache_in_sync s this \<longrightarrow>
              arrays (snd (items s this)) (fst (items s this)) = jsmap_values (the_items s this))"
proof -
  let ?m = "the_items s this"
  let ?s0 = "snd (items s this)"
  let ?s1 = "final (update ?s0 this x)"
  have al0: "allocated ?s0 this" and h0: "has ?s0 this (item_id x)"
    and m0: "the_items ?s0 this = ?m"
    using assms by (simp_all add: items_effect)
  from assms(2) have "jsmap_has (item_id x) ?m" by (simp add: has_def)
  from jsmap_set_at [OF this, of x] obtain i where i: "i < length ?m" "fst (?m ! i) = item_id x"
    "\<forall>j<i. fst (?m ! j) \<noteq> item_id x" "jsmap_set (item_id x) x ?m = ?m[i := (item_id x, x)]"
    by blast
  have "itemsCache (objects ?s1 this) = None"
    by (simp add: update_effect [OF al0 h0])
  then have "arrays (snd (items ?s1 this)) (fst (items ?s1 this)) = jsmap_values (the_items ?s1 this)"
    by (rule items_uncached)
  also have "\<dots> = jsmap_values (?m[i := (item_id x, x)])"
    by (simp add: update_effect [OF al0 h0] m0 i(4))
  also have "\<dots> = (jsmap_values ?m)[i := x]"
    by (simp add: jsmap_values_def map_update)
  finally have "arrays (snd (items ?s1 this)) (fst (items ?s1 this)) = (jsmap_values ?m)[i := x]" .
  with i(1-3) items_effect(4) [OF assms(1)] show ?thesis by blast
qed



lemma paginated_store_eval:
  "allocated (final (paginate registered_store 0 1 (Resolved (Some [Item 1 ''A'', Item 2 ''B'']) 2))) 0"
  "the_items (final (paginate registered_store 0 1 (Resolved (Some [Item 1 ''A'', Item 2 ''B'']) 2))) 0
     = [(1, Item 1 ''A''), (2, Item 2 ''B'')]"
  "the_seen (final (paginate registered_store 0 1 (Resolved (Some [Item 1 ''A'', Item 2 ''B'']) 2))) 0
     = [1]"
  "objects (final (paginate registered_store 0 1 (Resolved (Some [Item 1 ''A'', Item 2 ''B'']) 2))) 0
     = \<lparr>total_items = 2, loading = 2, items_map = Suc 0, itemsCache = None, seen = 3,
        onPaginate = 7, dispatch = Some 5\<rparr>"
  "dispatched (final (paginate registered_store 0 1 (Resolved (Some [Item 1 ''A'', Item 2 ''B'']) 2)))
     = [(5, 4)]"
proof -
  have un: "\<not> jsset_has 1 (the_seen registered_store 0)"
    by (simp add: registered_store_eval)
  note eff = paginate_resolved_effect [OF allocated_registered un,
      of "Some [Item 1 ''A'', Item 2 ''B'']" 2]
  show "allocated (final (paginate registered_store 0 1
      (Resolved (Some [Item 1 ''A'', Item 2 ''B'']) 2))) 0"
    by (rule eff)
  show "the_items (final (paginate registered_store 0 1
      (Resolved (Some [Item 1 ''A'', Item 2 ''B'']) 2))) 0 = [(1, Item 1 ''A''), (2, Item 2 ''B'')]"
    by (simp add: eff registered_store_eval)
  show "the_seen (final (paginate registered_store 0 1
      (Resolved (Some [Item 1 ''A'', Item 2 ''B'']) 2))) 0 = [1]"
    by (simp add: eff registered_store_eval jsset_add_def)
  show "objects (final (paginate registered_store 0 1
      (Resolved (Some [Item 1 ''A'', Item 2 ''B'']) 2))) 0
     = \<lparr>total_items = 2, loading = 2, items_map = Suc 0, itemsCache = None, seen = 3,
        onPaginate = 7, dispatch = Some 5\<rparr>"
    by (simp add: eff registered_store_eval)
  show "dispatched (final (paginate registered_store 0 1
      (Resolved (Some [Item 1 ''A'', Item 2 ''B'']) 2))) = [(5, 4)]"
    using paginate_resolved_snapshot(2) [OF allocated_registered un,
        of "Some [Item 1 ''A'', Item 2 ''B'']" 2]
    by (simp add: registered_store_eval)
qed

lemma paginate_snapshot_object:
  assumes "allocated s this" and "\<not> jsset_has p (the_seen s this)"
  shows "objects (final (paginate s this p (Resolved data t))) (nxt s) =
      \<lparr>total_items = t, loading = nxt s + 5, items_map = items_map (objects s this),
       itemsCache = itemsCache (objects s this), seen = nxt s + 4,
       onPaginate = onPaginate (objects s this), dispatch = dispatch (objects s this)\<rparr>"
    and "page_sets (final (paginate s this p (Resolved data t))) (nxt s + 4) =
      jsset_from (jsset_add p (the_seen s this)) []"
    and "nxt (final (paginate s this p (Resolved data t))) = nxt s + 6"
proof -
  let ?r = "resume_mutated (begin_mutated s this p) this p (case data of None \<Rightarrow> [] | Some xs \<Rightarrow> xs) t"
  have al: "allocated ?r this"
    by (intro mutated_allocated assms(1))
  have n: "nxt ?r = nxt s" "objects ?r this = (objects s this)\<lparr>total_items := t\<rparr>"
    "the_seen ?r this = jsset_add p (the_seen s this)"
    by (simp_all add: resume_mutated_this begin_mutated_this resume_mutated_frame
        begin_mutated_frame)
  have fin: "final (paginate s this p (Resolved data t)) = final (dispatch_clone ?r this)"
    using assms(2) by (simp add: paginate_final)
  have ex: "final (dispatch_clone ?r this) =
     ?r\<lparr>objects := (objects ?r)(nxt ?r :=
          \<lparr>total_items = total_items (objects ?r this), loading = nxt ?r + 5,
           items_map = items_map (objects ?r this), itemsCache = itemsCache (objects ?r this),
           seen = nxt ?r + 4, onPaginate = onPaginate (objects ?r this),
           dispatch = dispatch (objects ?r this)\<rparr>),
       item_maps := (item_maps ?r)(nxt ?r + 1 := []),
       bool_maps := (bool_maps ?r)(nxt ?r + 2 := [], nxt ?r + 5 := jsmap_from (the_loading ?r this) []),
       page_sets := (page_sets ?r)(nxt ?r + 3 := [], nxt ?r + 4 := jsset_from (the_seen ?r this) []),
       nxt := nxt ?r + 6,
       dispatched := dispatched ?r @
          (case dispatch (objects ?r this) of None \<Rightarrow> [] | Some d \<Rightarrow> [(d, nxt ?r)])\<rparr>"
    by (rule final_dispatch_clone [OF al])
  have o: "objects (final (dispatch_clone ?r this)) (nxt ?r) =
          \<lparr>total_items = total_items (objects ?r this), loading = nxt ?r + 5,
           items_map = items_map (objects ?r this), itemsCache = itemsCache (objects ?r this),
           seen = nxt ?r + 4, onPaginate = onPaginate (objects ?r this),
           dispatch = dispatch (objects ?r this)\<rparr>"
    and ps: "page_sets (final (dispatch_clone ?r this)) (nxt ?r + 4) = jsset_from (the_seen ?r this) []"
    and nx: "nxt (final (dispatch_clone ?r this)) = nxt ?r + 6"
    by (simp_all add: ex)
  show "objects (final (paginate s this p (Resolved data t))) (nxt s) =
      \<lparr>total_items = t, loading = nxt s + 5, items_map = items_map (objects s this),
       itemsCache = itemsCache (objects s this), seen = nxt s + 4,
       onPaginate = onPaginate (objects s this), dispatch = dispatch (objects s this)\<rparr>"
    using o by (simp add: fin n)
  show "page_sets (final (paginate s this p (Resolved data t))) (nxt s + 4) =
      jsset_from (jsset_add p (the_seen s this)) []"
    using ps by (simp add: fin n)
  show "nxt (final (paginate s this p (Resolved data t))) = nxt s + 6"
    using nx by (simp add: fin n)
qed

section \<open>The claims\<close>

text \<open>
  C5. Two reads of \<^verbatim>\<open>.items\<close> one after the other, with nothing in between, return the
  same reference: the second read returns the address the first one returned and
  leaves the store as the first read left it (so the array behind the address is the
  same too). The array is computed only when the cache is \<^verbatim>\<open>null\<close>. A lookup with
  \<^verbatim>\<open>get\<close> between the two reads, which mutates nothing, does not change the reference
  or the array either.
\<close>

theorem items_read_stable:
  "items (snd (items s this)) this = (fst (items s this), snd (items s this)) \<and>
   fst (items (snd (get (snd (items s this)) this k)) this) = fst (items s this) \<and>
   arrays (snd (items (snd (get (snd (items s this)) this k)) this)) (fst (items s this))
     = arrays (snd (items s this)) (fst (items s this))"
  by (simp add: items_def get_def Let_def split: option.splits)

text \<open>
  C6. \<^verbatim>\<open>add\<close> of an item whose id is present, \<^verbatim>\<open>remove\<close> of an absent id and
  \<^verbatim>\<open>update\<close> of an item whose id is absent return without calling the dispatch
  callback and without changing the item map, the cached array, \<^verbatim>\<open>total\<close>, the seen
  pages or the loading flags: \<^verbatim>\<open>add\<close> leaves the whole state as it was, and
  \<^verbatim>\<open>remove\<close> and \<^verbatim>\<open>update\<close> change nothing but the console, where they write their
  warning.
\<close>

theorem short_circuit_noop:
  "(has s this (item_id x) \<longrightarrow> add s this x = Returned s) \<and>
   (\<not> has s this k \<longrightarrow>
      remove s this k = Returned (s\<lparr>console := console s @ [Warn NOT_FOUND FAILED_TO_REMOVE k]\<rparr>)) \<and>
   (\<not> has s this (item_id y) \<longrightarrow>
      update s this y =
        Returned (s\<lparr>console := console s @ [Warn NOT_FOUND FAILED_TO_UPDATE (item_id y)]\<rparr>))"
  by (simp add: add_def remove_def update_def has_def Let_def jsmap_delete_absent the_items_def)

theorem short_circuit_noop_witness:
  "has (final (add registered_store 0 (Item 1 ''A''))) 0 (item_id (Item 1 ''Z'')) \<and>
   add (final (add registered_store 0 (Item 1 ''A''))) 0 (Item 1 ''Z'')
     = Returned (final (add registered_store 0 (Item 1 ''A''))) \<and>
   \<not> has registered_store 0 999 \<and>
   remove registered_store 0 999
     = Returned (registered_store\<lparr>console := [Warn NOT_FOUND FAILED_TO_REMOVE 999]\<rparr>) \<and>
   \<not> has registered_store 0 (item_id (Item 2 ''B'')) \<and>
   update registered_store 0 (Item 2 ''B'')
     = Returned (registered_store\<lparr>console := [Warn NOT_FOUND FAILED_TO_UPDATE 2]\<rparr>)"
proof -
  let ?s1 = "final (add registered_store 0 (Item 1 ''A''))"
  have h0: "\<not> has registered_store 0 (item_id (Item 1 ''A''))"
    by (simp add: has_def registered_store_eval)
  have "the_items ?s1 0 = [(1, Item 1 ''A'')]"
    by (simp add: add_unfold [OF h0] dispatch_clone_this mutated_allocated allocated_registered
        add_mutated_this registered_store_eval)
  then have h1: "has ?s1 0 (item_id (Item 1 ''Z''))"
    by (simp add: has_def)
  have h2: "\<not> has registered_store 0 999"
    by (simp add: has_def registered_store_eval)
  have h3: "\<not> has registered_store 0 (item_id (Item 2 ''B''))"
    by (simp add: has_def registered_store_eval)
  show ?thesis
    using h1 h2 h3
      short_circuit_noop [of ?s1 0 "Item 1 ''Z''" 999 "Item 2 ''B''"]
      short_circuit_noop [of registered_store 0 "Item 1 ''A''" 999 "Item 2 ''B''"]
    by (simp add: registered_store_eval)
qed

text \<open>
  C3 says that every call of \<^verbatim>\<open>reset()\<close> delivers a notification to the registered
  callback. \<^verbatim>\<open>reset\<close> clears the item map and the cached array as the other mutators
  change them, but it is the one mutator that does not end with
  \<^verbatim>\<open>this.dispatch(this.clone())\<close>. Take a store whose callback is registered, has
  received the snapshot of \<^verbatim>\<open>paginate(1)\<close> with two items (the object at address 4)
  and has read \<^verbatim>\<open>.items\<close> of that snapshot. \<^verbatim>\<open>reset()\<close> of the store empties the item
  map and the seen pages, sets \<^verbatim>\<open>total\<close> to 0 and returns the store, and the log of
  callback calls is still the one call made by \<^verbatim>\<open>paginate\<close>: the snapshot the callback
  holds still has page 1 seen, \<^verbatim>\<open>total\<close> 2 and, as its \<^verbatim>\<open>.items\<close>, the array of both
  items.
\<close>

theorem reset_skips_dispatch:
  "let s1 = final (paginate registered_store 0 1 (Resolved (Some [Item 1 ''A'', Item 2 ''B'']) 2));
       s2 = snd (items s1 4);
       s3 = snd (reset s2 0)
   in dispatch (objects s2 0) = Some 5 \<and>
      dispatched s2 = [(5, 4)] \<and>
      the_items s2 0 = [(1, Item 1 ''A''), (2, Item 2 ''B'')] \<and>
      the_seen s2 0 = [1] \<and>
      arrays s2 (fst (items s1 4)) = [Item 1 ''A'', Item 2 ''B''] \<and>
      fst (reset s2 0) = 0 \<and>
      the_items s3 0 = [] \<and>
      the_seen s3 0 = [] \<and>
      total_items (objects s3 0) = 0 \<and>
      dispatched s3 = [(5, 4)] \<and>
      the_seen s3 4 = [1] \<and>
      total_items (objects s3 4) = 2 \<and>
      items s3 4 = (fst (items s1 4), s3) \<and>
      arrays s3 (fst (items s1 4)) = [Item 1 ''A'', Item 2 ''B'']"
proof -
  let ?s1 = "final (paginate registered_store 0 1
      (Resolved (Some [Item 1 ''A'', Item 2 ''B'']) 2)) :: string state"
  have un: "\<not> jsset_has 1 (the_seen registered_store 0)"
    by (simp add: registered_store_eval)
  note snap = paginate_snapshot_object [OF allocated_registered un,
      of "Some [Item 1 ''A'', Item 2 ''B'']" 2]
  have o0: "objects ?s1 0 = \<lparr>total_items = 2, loading = 2, items_map = Suc 0, itemsCache = None,
      seen = 3, onPaginate = 7, dispatch = Some 5\<rparr>"
    by (rule paginated_store_eval)
  have o4: "objects ?s1 4 = \<lparr>total_items = 2, loading = 9, items_map = Suc 0, itemsCache = None,
      seen = 8, onPaginate = 7, dispatch = Some 5\<rparr>"
    using snap(1) by (simp add: registered_store_eval)
  have im: "item_maps ?s1 (Suc 0) = [(1, Item 1 ''A''), (2, Item 2 ''B'')]"
    using paginated_store_eval(2) by (simp add: the_items_def o0)
  have p3: "page_sets ?s1 3 = [1]"
    using paginated_store_eval(3) by (simp add: the_seen_def o0)
  have p8: "page_sets ?s1 8 = [1]"
    using snap(2) by (simp add: registered_store_eval jsset_add_def)
  have n: "nxt ?s1 = 10"
    using snap(3) by (simp add: registered_store_eval)
  have lg: "dispatched ?s1 = [(5, 4)]"
    by (rule paginated_store_eval)
  show ?thesis
    unfolding Let_def
    by (simp add: items_def reset_def Let_def the_items_def the_seen_def jsmap_values_def
        o0 o4 im p3 p8 n lg)
qed

text \<open>
  C9. The constructor leaves \<^verbatim>\<open>dispatch\<close> unset and \<^verbatim>\<open>setDispatch(d)\<close> sets it. On a
  store whose \<^verbatim>\<open>dispatch\<close> is unset, every notifying mutation throws a \<^verbatim>\<open>TypeError\<close>
  when it calls the callback: \<^verbatim>\<open>add\<close> of a new id, \<^verbatim>\<open>remove\<close> and \<^verbatim>\<open>update\<close> of a
  present id, and \<^verbatim>\<open>paginate\<close> of an unseen page whose fetch resolves. On a store
  whose \<^verbatim>\<open>dispatch\<close> is set, \<^verbatim>\<open>add\<close>, \<^verbatim>\<open>remove\<close>, \<^verbatim>\<open>update\<close> and a \<^verbatim>\<open>paginate\<close>
  whose fetch resolves return, and no \<^verbatim>\<open>paginate\<close> throws a \<^verbatim>\<open>TypeError\<close>.
\<close>

theorem absent_dispatch_throws:
  "dispatch (objects (snd (new_Paginatable f s0)) (fst (new_Paginatable f s0))) = None \<and>
   dispatch (objects (snd (setDispatch s this d)) this) = Some d \<and>
   (dispatch (objects s this) = None \<longrightarrow>
      (\<not> has s this (item_id x) \<longrightarrow> (\<exists>s'. add s this x = Threw TypeError s')) \<and>
      (has s this k \<longrightarrow> (\<exists>s'. remove s this k = Threw TypeError s')) \<and>
      (has s this (item_id x) \<longrightarrow> (\<exists>s'. update s this x = Threw TypeError s')) \<and>
      (\<not> jsset_has p (the_seen s this) \<longrightarrow>
         (\<exists>s'. paginate s this p (Resolved data t) = Threw TypeError s'))) \<and>
   (dispatch (objects s this) = Some d \<longrightarrow>
      (\<exists>s'. add s this x = Returned s') \<and>
      (\<exists>s'. remove s this k = Returned s') \<and>
      (\<exists>s'. update s this x = Returned s') \<and>
      (\<exists>s'. paginate s this p (Resolved data t) = Returned s') \<and>
      (\<forall>s'. paginate s this p r \<noteq> Threw TypeError s'))"
proof (intro conjI impI)
  show "dispatch (objects (snd (new_Paginatable f s0)) (fst (new_Paginatable f s0))) = None"
    by (simp add: new_Paginatable_def Let_def)
  show "dispatch (objects (snd (setDispatch s this d)) this) = Some d"
    by (simp add: setDispatch_def)
next
  assume n: "dispatch (objects s this) = None"
  { assume "\<not> has s this (item_id x)"
    then show "\<exists>s'. add s this x = Threw TypeError s'"
      using n by (simp add: add_unfold dispatch_clone_throws mutated_dispatch) }
  { assume "has s this k"
    then show "\<exists>s'. remove s this k = Threw TypeError s'"
      using n by (simp add: remove_unfold dispatch_clone_throws mutated_dispatch) }
  { assume "has s this (item_id x)"
    then show "\<exists>s'. update s this x = Threw TypeError s'"
      using n by (simp add: update_unfold dispatch_clone_throws mutated_dispatch) }
  { assume "\<not> jsset_has p (the_seen s this)"
    then show "\<exists>s'. paginate s this p (Resolved data t) = Threw TypeError s'"
      using n
      by (simp add: paginate_unseen paginate_resume_unfold dispatch_clone_throws mutated_dispatch) }
next
  assume d: "dispatch (objects s this) = Some d"
  show "\<exists>s'. add s this x = Returned s'"
    using d by (cases "has s this (item_id x)")
      (simp_all add: add_unfold dispatch_clone_returns mutated_dispatch add_present)
  show "\<exists>s'. remove s this k = Returned s'"
    using d by (cases "has s this k")
      (simp_all add: remove_unfold dispatch_clone_returns mutated_dispatch remove_absent)
  show "\<exists>s'. update s this x = Returned s'"
    using d by (cases "has s this (item_id x)")
      (simp_all add: update_unfold dispatch_clone_returns mutated_dispatch update_absent)
  show "\<exists>s'. paginate s this p (Resolved data t) = Returned s'"
    using d by (cases "jsset_has p (the_seen s this)")
      (simp_all add: paginate_unseen paginate_seen paginate_resume_unfold dispatch_clone_returns
        mutated_dispatch)
  show "\<forall>s'. paginate s this p r \<noteq> Threw TypeError s'"
    using d by (cases "jsset_has p (the_seen s this)"; cases r)
      (simp_all add: paginate_unseen paginate_seen paginate_resume_unfold dispatch_clone_returns
        mutated_dispatch)
qed

theorem absent_dispatch_throws_witness:
  "dispatch (objects fresh_store 0) = None \<and>
   \<not> has fresh_store 0 (item_id (Item 1 ''A'')) \<and>
   (\<exists>s'. add fresh_store 0 (Item 1 ''A'') = Threw TypeError s') \<and>
   \<not> jsset_has 1 (the_seen fresh_store 0) \<and>
   (\<exists>s'. paginate fresh_store 0 1 (Resolved (Some [Item 1 ''A'']) 1) = Threw TypeError s') \<and>
   dispatch (objects (final (add fresh_store 0 (Item 1 ''A''))) 0) = None \<and>
   has (final (add fresh_store 0 (Item 1 ''A''))) 0 (item_id (Item 1 ''B'')) \<and>
   (\<exists>s'. remove (final (add fresh_store 0 (Item 1 ''A''))) 0 1 = Threw TypeError s') \<and>
   (\<exists>s'. update (final (add fresh_store 0 (Item 1 ''A''))) 0 (Item 1 ''B'') = Threw TypeError s') \<and>
   dispatch (objects registered_store 0) = Some 5 \<and>
   (\<exists>s'. add registered_store 0 (Item 1 ''A'') = Returned s') \<and>
   (\<exists>s'. paginate registered_store 0 1 (Resolved (Some [Item 1 ''A'']) 1) = Returned s')"
proof -
  let ?s1 = "final (add fresh_store 0 (Item 1 ''A''))"
  have a: "dispatch (objects fresh_store 0) = None" "\<not> has fresh_store 0 (item_id (Item 1 ''A''))"
    "\<not> jsset_has 1 (the_seen fresh_store 0)"
    by (simp_all add: has_def fresh_store_eval)
  have b: "dispatch (objects ?s1 0) = None" "has ?s1 0 1" "has ?s1 0 (item_id (Item 1 ''B''))"
    by (simp_all add: one_item_store)
  have c: "dispatch (objects registered_store 0) = Some 5"
    by (simp add: registered_store_eval)
  show ?thesis
    using a b c
      absent_dispatch_throws [of 7 empty_state fresh_store 0 5 "Item 1 ''A''" 1 1 "Some [Item 1 ''A'']" 1
        "Resolved None 0"]
      absent_dispatch_throws [of 7 empty_state ?s1 0 5 "Item 1 ''B''" 1 1 "Some [Item 1 ''A'']" 1
        "Resolved None 0"]
      absent_dispatch_throws [of 7 empty_state registered_store 0 5 "Item 1 ''A''" 1 1
        "Some [Item 1 ''A'']" 1 "Resolved None 0"]
    by blast
qed

text \<open>
  C4. For a page \<open>p\<close> not seen yet, two calls of \<^verbatim>\<open>paginate(p)\<close> one after the other
  call the fetch function once: the first call records one call of the fetch function
  for \<open>p\<close>, whatever the fetch settles to, and the second call returns at once with the
  state (and so the log of fetch calls) unchanged.
\<close>

theorem paginate_twice_fetches_once:
  assumes "allocated s this" and "\<not> jsset_has p (the_seen s this)"
  shows "fetched (final (paginate s this p r1)) = fetched s @ [(onPaginate (objects s this), p)] \<and>
         paginate (final (paginate s this p r1)) this p r2 = Returned (final (paginate s this p r1)) \<and>
         fetched (final (paginate (final (paginate s this p r1)) this p r2)) =
           fetched s @ [(onPaginate (objects s this), p)]"
proof (cases r1)
  case (Resolved data t)
  have "jsset_has p (the_seen (final (paginate s this p r1)) this)"
    by (simp add: Resolved paginate_resolved_effect [OF assms] jsset_has_add)
  then have "paginate (final (paginate s this p r1)) this p r2 = Returned (final (paginate s this p r1))"
    by (rule paginate_seen)
  then show ?thesis
    by (simp add: Resolved paginate_resolved_effect [OF assms])
next
  case (Rejected e)
  have fin: "final (paginate s this p r1) = begin_mutated s this p"
    by (simp add: Rejected paginate_rejected_effect [OF assms(2)])
  have "jsset_has p (the_seen (begin_mutated s this p) this)"
    by (simp add: begin_mutated_this jsset_has_add)
  then have "paginate (begin_mutated s this p) this p r2 = Returned (begin_mutated s this p)"
    by (rule paginate_seen)
  then show ?thesis
    by (simp add: fin begin_mutated_this)
qed

theorem paginate_twice_fetches_once_witness:
  "allocated registered_store 0 \<and> \<not> jsset_has 1 (the_seen registered_store 0) \<and>
   fetched (final (paginate registered_store 0 1 (Resolved (Some [Item 1 ''A'', Item 2 ''B'']) 2)))
     = [(7, 1)] \<and>
   paginate (final (paginate registered_store 0 1 (Resolved (Some [Item 1 ''A'', Item 2 ''B'']) 2)))
       0 1 (Resolved None 0)
     = Returned (final (paginate registered_store 0 1 (Resolved (Some [Item 1 ''A'', Item 2 ''B'']) 2)))"
proof -
  have h: "\<not> jsset_has 1 (the_seen registered_store 0)"
    by (simp add: registered_store_eval)
  show ?thesis
    using allocated_registered h
      paginate_twice_fetches_once [OF allocated_registered h,
        of "Resolved (Some [Item 1 ''A'', Item 2 ''B'']) 2" "Resolved None 0"]
    by (simp add: registered_store_eval)
qed


text \<open>
  C8. The snapshot passed to the dispatch callback is a new object. It holds the same
  references to the item map, the cached array and the callback as the store it was
  cloned from, and references to a new set of seen pages and a new map of loading
  flags with the contents of the store's. A later \<^verbatim>\<open>paginate\<close> or \<^verbatim>\<open>reset\<close> of the
  store leaves the seen pages and the loading flags of the snapshot as they were.
  The two \<open>distinct\<close> premises say that the store's \<^verbatim>\<open>Set\<close> and \<^verbatim>\<open>Map\<close> hold each page
  once, as a \<^verbatim>\<open>Set\<close> and a \<^verbatim>\<open>Map\<close> do.
\<close>

theorem snapshot_shares_and_copies:
  assumes "allocated s this" and "dispatch (objects s this) = Some d"
    and "distinct (the_seen s this)" and "distinct (map fst (the_loading s this))"
  shows "let s' = final (dispatch_clone s this); c = nxt s in
     dispatch_clone s this = Returned s' \<and>
     dispatched s' = dispatched s @ [(d, c)] \<and>
     c \<noteq> this \<and>
     items_map (objects s' c) = items_map (objects s' this) \<and>
     itemsCache (objects s' c) = itemsCache (objects s' this) \<and>
     dispatch (objects s' c) = dispatch (objects s' this) \<and>
     seen (objects s' c) \<noteq> seen (objects s' this) \<and>
     loading (objects s' c) \<noteq> loading (objects s' this) \<and>
     the_seen s' c = the_seen s' this \<and>
     the_loading s' c = the_loading s' this \<and>
     the_seen (final (paginate s' this q r)) c = the_seen s' c \<and>
     the_loading (final (paginate s' this q r)) c = the_loading s' c \<and>
     the_seen (snd (reset s' this)) c = the_seen s' c \<and>
     the_loading (snd (reset s' this)) c = the_loading s' c"
proof -
  let ?s' = "final (dispatch_clone s this)"
  let ?c = "nxt s"
  have lt: "this < nxt s" "seen (objects s this) < nxt s" "loading (objects s this) < nxt s"
    using assms(1) by (simp_all add: allocated_def)
  have ret: "dispatch_clone s this = Returned ?s'"
    using assms(2) by (simp add: dispatch_clone_cases)
  have log: "dispatched ?s' = dispatched s @ [(d, ?c)]"
    using assms(2) by (simp add: final_dispatch_clone [OF assms(1)])
  have objc: "objects ?s' ?c =
      \<lparr>total_items = total_items (objects s this), loading = nxt s + 5,
       items_map = items_map (objects s this), itemsCache = itemsCache (objects s this),
       seen = nxt s + 4, onPaginate = onPaginate (objects s this),
       dispatch = dispatch (objects s this)\<rparr>"
    by (simp add: final_dispatch_clone [OF assms(1)])
  have objt: "objects ?s' this = objects s this"
    by (rule dispatch_clone_this [OF assms(1)])
  have al': "allocated ?s' this"
    by (rule dispatch_clone_this [OF assms(1)])
  have n': "nxt ?s' = nxt s + 6"
    by (rule dispatch_clone_logs [OF assms(1)])
  have ps: "page_sets ?s' (nxt s + 4) = jsset_from (the_seen s this) []"
    and bm: "bool_maps ?s' (nxt s + 5) = jsmap_from (the_loading s this) []"
    by (simp_all add: final_dispatch_clone [OF assms(1)])
  have "the_seen ?s' ?c = page_sets ?s' (seen (objects ?s' ?c))"
    by (simp only: the_seen_def)
  also have "\<dots> = jsset_from (the_seen s this) []"
    by (simp add: objc ps)
  finally have seenc: "the_seen ?s' ?c = the_seen s this"
    using assms(3) by (simp add: jsset_from_copy)
  have "the_loading ?s' ?c = bool_maps ?s' (loading (objects ?s' ?c))"
    by (simp only: the_loading_def)
  also have "\<dots> = jsmap_from (the_loading s this) []"
    by (simp add: objc bm)
  finally have loadc: "the_loading ?s' ?c = the_loading s this"
    using assms(4) by (simp add: jsmap_from_copy)
  have seent: "the_seen ?s' this = the_seen s this" "the_loading ?s' this = the_loading s this"
    by (rule dispatch_clone_this [OF assms(1)])+
  have pg: "objects (final (paginate ?s' this q r)) ?c = objects ?s' ?c"
    "page_sets (final (paginate ?s' this q r)) (nxt s + 4) = page_sets ?s' (nxt s + 4)"
    "bool_maps (final (paginate ?s' this q r)) (nxt s + 5) = bool_maps ?s' (nxt s + 5)"
    using lt
    by (simp_all add: paginate_frame_objects [OF al'] paginate_frame_page_sets [OF al']
        paginate_frame_bool_maps [OF al'] n' objt)
  have rs: "objects (snd (reset ?s' this)) ?c = objects ?s' ?c"
    "page_sets (snd (reset ?s' this)) (nxt s + 4) = page_sets ?s' (nxt s + 4)"
    "bool_maps (snd (reset ?s' this)) (nxt s + 5) = bool_maps ?s' (nxt s + 5)"
    using lt by (simp_all add: reset_frame objt)
  have later: "the_seen (final (paginate ?s' this q r)) ?c = the_seen ?s' ?c"
    "the_loading (final (paginate ?s' this q r)) ?c = the_loading ?s' ?c"
    "the_seen (snd (reset ?s' this)) ?c = the_seen ?s' ?c"
    "the_loading (snd (reset ?s' this)) ?c = the_loading ?s' ?c"
    by (simp_all add: the_seen_def the_loading_def pg rs objc)
  show ?thesis
    unfolding Let_def
    using ret log lt seenc loadc seent later
    by (simp add: objc objt)
qed

theorem snapshot_shares_and_copies_witness:
  "allocated registered_store 0 \<and> dispatch (objects registered_store 0) = Some 5 \<and>
   distinct (the_seen registered_store 0) \<and> distinct (map fst (the_loading registered_store 0)) \<and>
   dispatched (final (dispatch_clone registered_store 0)) = [(5, 4)] \<and>
   items_map (objects (final (dispatch_clone registered_store 0)) 4)
     = items_map (objects (final (dispatch_clone registered_store 0)) 0) \<and>
   seen (objects (final (dispatch_clone registered_store 0)) 4)
     \<noteq> seen (objects (final (dispatch_clone registered_store 0)) 0) \<and>
   the_seen (final (paginate (final (dispatch_clone registered_store 0)) 0 1 (Resolved None 0))) 4
     = []"
proof -
  have h: "dispatch (objects registered_store 0) = Some 5" "distinct (the_seen registered_store 0)"
    "distinct (map fst (the_loading registered_store 0))"
    by (simp_all add: registered_store_eval)
  show ?thesis
    using allocated_registered h
      snapshot_shares_and_copies [OF allocated_registered h, of 1 "Resolved None 0"]
    by (simp add: Let_def registered_store_eval dispatch_clone_this [OF allocated_registered])
qed

text \<open>
  C7. In every state the program can reach, no \<^verbatim>\<open>Map\<close> of items holds two entries with
  the same id. \<^verbatim>\<open>update(x)\<close> of a present id replaces the value: the id then maps to
  \<open>x\<close> and the sequence of keys is as before. The merge of a \<^verbatim>\<open>paginate\<close> whose fetch
  resolves overwrites too: an id among the returned items maps to the last returned
  item with that id, and every other id maps to what it mapped to before.
\<close>

theorem item_ids_unique:
  assumes "reachable s" and "allocated s this"
  shows "(\<forall>a. distinct (map fst (item_maps s a))) \<and>
     (has s this (item_id x) \<longrightarrow>
        jsmap_get (item_id x) (the_items (final (update s this x)) this) = Some x \<and>
        map fst (the_items (final (update s this x)) this) = map fst (the_items s this) \<and>
        distinct (map fst (the_items (final (update s this x)) this))) \<and>
     (\<not> jsset_has p (the_seen s this) \<longrightarrow>
        distinct (map fst (the_items (final (paginate s this p (Resolved data t))) this)) \<and>
        (\<forall>k. jsmap_get k (the_items (final (paginate s this p (Resolved data t))) this) =
           (case find (\<lambda>y. item_id y = k) (rev (case data of None \<Rightarrow> [] | Some xs \<Rightarrow> xs)) of
              Some y \<Rightarrow> Some y
            | None \<Rightarrow> jsmap_get k (the_items s this))))"
proof (intro conjI impI)
  have u: "unique_ids s"
    by (rule reachable_unique_ids [OF assms(1)])
  then show "\<forall>a. distinct (map fst (item_maps s a))"
    by (simp add: unique_ids_def)
  from u have d: "distinct (map fst (the_items s this))"
    by (simp add: unique_ids_def the_items_def)
  { assume h: "has s this (item_id x)"
    show "jsmap_get (item_id x) (the_items (final (update s this x)) this) = Some x"
      by (simp add: update_effect [OF assms(2) h] jsmap_get_set)
    show k: "map fst (the_items (final (update s this x)) this) = map fst (the_items s this)"
      using h by (simp add: update_effect [OF assms(2) h] jsmap_keys_set has_def)
    show "distinct (map fst (the_items (final (update s this x)) this))"
      using d by (simp add: k) }
  { assume h: "\<not> jsset_has p (the_seen s this)"
    show "distinct (map fst (the_items (final (paginate s this p (Resolved data t))) this))"
      using d by (simp add: paginate_resolved_effect [OF assms(2) h] merge_items_distinct)
    show "\<forall>k. jsmap_get k (the_items (final (paginate s this p (Resolved data t))) this) =
           (case find (\<lambda>y. item_id y = k) (rev (case data of None \<Rightarrow> [] | Some xs \<Rightarrow> xs)) of
              Some y \<Rightarrow> Some y
            | None \<Rightarrow> jsmap_get k (the_items s this))"
      by (simp add: paginate_resolved_effect [OF assms(2) h] merge_items_get) }
qed

theorem item_ids_unique_witness:
  "reachable (final (add fresh_store 0 (Item 1 ''A''))) \<and>
   allocated (final (add fresh_store 0 (Item 1 ''A''))) 0 \<and>
   has (final (add fresh_store 0 (Item 1 ''A''))) 0 (item_id (Item 1 ''B'')) \<and>
   \<not> jsset_has 1 (the_seen (final (add fresh_store 0 (Item 1 ''A''))) 0) \<and>
   jsmap_get 1 (the_items (final (update (final (add fresh_store 0 (Item 1 ''A''))) 0 (Item 1 ''B''))) 0)
     = Some (Item 1 ''B'') \<and>
   map fst (the_items (final (update (final (add fresh_store 0 (Item 1 ''A''))) 0 (Item 1 ''B''))) 0)
     = [1] \<and>
   jsmap_get 1 (the_items (final (paginate (final (add fresh_store 0 (Item 1 ''A''))) 0 1
       (Resolved (Some [Item 1 ''C'', Item 2 ''D'', Item 1 ''E'']) 2))) 0) = Some (Item 1 ''E'')"
proof -
  let ?s1 = "final (add fresh_store 0 (Item 1 ''A''))"
  have al: "allocated ?s1 0" by (rule one_item_store)
  have h: "has ?s1 0 (item_id (Item 1 ''B''))" by (simp add: one_item_store)
  have "\<not> has fresh_store 0 (item_id (Item 1 ''A''))"
    by (simp add: has_def fresh_store_eval)
  then have u: "\<not> jsset_has 1 (the_seen ?s1 0)"
    by (simp add: add_effect [OF allocated_fresh] fresh_store_eval)
  show ?thesis
    using reachable_one_item al h u
      item_ids_unique [OF reachable_one_item al, of "Item 1 ''B''" 1
        "Some [Item 1 ''C'', Item 2 ''D'', Item 1 ''E'']" 2]
    by (simp add: one_item_store)
qed

text \<open>
  C1 says that a successful \<^verbatim>\<open>paginate\<close> of an unseen page merges the returned items
  into the item map and invalidates the cached array, so that the next read of
  \<^verbatim>\<open>.items\<close> returns a new reference with the merged items. The code merges the items
  but \<^verbatim>\<open>paginate\<close> never sets \<^verbatim>\<open>_itemsCache\<close> to \<^verbatim>\<open>null\<close>. On a store with a registered
  callback whose \<^verbatim>\<open>.items\<close> was read once, \<^verbatim>\<open>paginate(1)\<close> with two returned items
  returns and leaves both items in the map, and the next read of \<^verbatim>\<open>.items\<close>, on the
  store and on the snapshot passed to the callback, returns the old reference, whose
  array is still empty.
\<close>

theorem paginate_keeps_stale_cache:
  "let a = fst (items registered_store 0);
       s1 = snd (items registered_store 0);
       s2 = final (paginate s1 0 1 (Resolved (Some [Item 1 ''A'', Item 2 ''B'']) 2))
   in arrays s1 a = [] \<and>
      paginate s1 0 1 (Resolved (Some [Item 1 ''A'', Item 2 ''B'']) 2) = Returned s2 \<and>
      the_items s2 0 = [(1, Item 1 ''A''), (2, Item 2 ''B'')] \<and>
      items s2 0 = (a, s2) \<and>
      arrays s2 a = [] \<and>
      dispatched s2 = [(5, 5)] \<and>
      items s2 5 = (a, s2)"
proof -
  let ?s1 = "snd (items registered_store 0)"
  let ?r = "Resolved (Some [Item 1 ''A'', Item 2 ''B'']) 2 :: string settled"
  let ?s2 = "final (paginate ?s1 0 1 ?r)"
  have al: "allocated ?s1 0" by (rule read_store_eval)
  have un: "\<not> jsset_has 1 (the_seen ?s1 0)" by (simp add: read_store_eval)
  have ret: "paginate ?s1 0 1 ?r = Returned ?s2"
    by (rule paginate_resolved_returns [where d = 5]) (simp add: read_store_eval)
  have its: "the_items ?s2 0 = [(1, Item 1 ''A''), (2, Item 2 ''B'')]"
    by (simp add: paginate_resolved_effect [OF al un] read_store_eval)
  have c0: "itemsCache (objects ?s2 0) = Some 4"
    by (simp add: paginate_resolved_effect [OF al un] read_store_eval)
  have c5: "itemsCache (objects ?s2 5) = Some 4"
    using paginate_resolved_snapshot(1) [OF al un, of "Some [Item 1 ''A'', Item 2 ''B'']" 2]
    by (simp add: read_store_eval)
  have log: "dispatched ?s2 = [(5, 5)]"
    using paginate_resolved_snapshot(2) [OF al un, of "Some [Item 1 ''A'', Item 2 ''B'']" 2]
    by (simp add: read_store_eval)
  have arr: "arrays ?s2 4 = []"
    by (simp add: paginate_resolved_effect [OF al un] read_store_eval)
  have r0: "items ?s2 0 = (4, ?s2)" using c0 by (simp add: items_def)
  have r5: "items ?s2 5 = (4, ?s2)" using c5 by (simp add: items_def)
  show ?thesis
    unfolding Let_def
    using ret its log arr r0 r5 by (simp add: read_store_eval)
qed

text \<open>
  C2 says that when the fetch fails, \<^verbatim>\<open>paginate(p)\<close> passes the failure on, has set
  \<^verbatim>\<open>loading[p]\<close> back to \<^verbatim>\<open>false\<close> by then, and leaves \<open>p\<close> among the seen pages. The code
  passes the failure on and keeps \<open>p\<close> seen, but the rejection skips the statement after
  the \<^verbatim>\<open>await\<close>: on a store with a registered callback, \<^verbatim>\<open>paginate(1)\<close> with a rejected
  fetch throws the reason of the fetch with \<^verbatim>\<open>loading.get(1)\<close> still \<^verbatim>\<open>true\<close>, and a later
  \<^verbatim>\<open>paginate(1)\<close> returns at once, so the flag stays.
\<close>

theorem paginate_rejected_keeps_loading:
  "let s' = final (paginate registered_store 0 1 (Rejected ''boom''))
   in paginate registered_store 0 1 (Rejected ''boom'') = Threw (FetchFailure ''boom'') s' \<and>
      fetched s' = [(7, 1)] \<and>
      jsmap_get 1 (the_loading s' 0) = Some True \<and>
      jsset_has 1 (the_seen s' 0) \<and>
      paginate s' 0 1 (Resolved (Some [Item 1 ''A'']) 1) = Returned s'"
proof -
  have un: "\<not> jsset_has 1 (the_seen registered_store 0)"
    by (simp add: registered_store_eval)
  have seen: "jsset_has 1 (the_seen (begin_mutated registered_store 0 1) 0)"
    by (simp add: begin_mutated_this jsset_has_add)
  show ?thesis
    unfolding Let_def
    using seen
    by (simp add: paginate_rejected_effect [OF un] begin_mutated_this registered_store_eval
        paginate_seen)
qed

end
